theory Spec2Isabelle
  imports Main
begin

section \<open>The \<open>stock_likes\<close> table and the statements sent to it\<close>

text \<open>
  Both server files keep their state in one PostgreSQL relation,
  \<^verbatim>\<open>stock_likes (symbol TEXT PRIMARY KEY, likes INTEGER NOT NULL DEFAULT 0,
  ips TEXT[] NOT NULL DEFAULT '{}')\<close>. A row is a record; the relation, keyed by
  its primary key, is a map from symbols to rows. \<open>ips\<close> is an array, so it is a
  list: order and duplicates are what \<open>array_append\<close> makes them. A string is
  the list of the bytes of its UTF-8 encoding.

  The pool also counts the statements it was sent (\<open>queries\<close>), so that
  "no statement was issued" can be said of a run.
\<close>

record row =
  likes :: int
  ips :: "string list"

record pool =
  stock_likes :: "string \<rightharpoonup> row"
  queries :: nat

definition empty_pool :: pool where
  "empty_pool = \<lparr>stock_likes = Map.empty, queries = 0\<rparr>"

text \<open>The four statements of the two files, with their parameters.\<close>

datatype statement =
    Insert string
  | SelectLikesIps string
  | SelectLikes string
  | Update string string

text \<open>
  \<open>pool.query\<close> rejects when the statement is refused. PostgreSQL itself refuses
  a TEXT parameter that holds the NUL character, and an UPDATE whose
  \<open>likes + 1\<close> leaves the INTEGER range (the row then stays as it was).
\<close>

definition text_ok :: "string \<Rightarrow> bool" where
  "text_ok s = (CHR 0x00 \<notin> set s)"

definition int4_max :: int where
  "int4_max = 2147483647"

fun type_refuses :: "statement \<Rightarrow> pool \<Rightarrow> bool" where
  "type_refuses (Insert symbol) p = (\<not> text_ok symbol)"
| "type_refuses (SelectLikesIps symbol) p = (\<not> text_ok symbol)"
| "type_refuses (SelectLikes symbol) p = (\<not> text_ok symbol)"
| "type_refuses (Update symbol ip) p =
     (\<not> text_ok symbol \<or> \<not> text_ok ip \<or>
      (case stock_likes p symbol of None \<Rightarrow> False | Some r \<Rightarrow> int4_max \<le> likes r))"

text \<open>
  Every other reason for which a statement fails (the connection is lost, a
  timeout, a size limit of the server) is a parameter of the model: \<open>B st p\<close>
  says that the backend refuses statement \<open>st\<close> in state \<open>p\<close>. \<open>no_failures\<close> is
  the backend that never does.
\<close>

type_synonym backend = "statement \<Rightarrow> pool \<Rightarrow> bool"

definition refused :: "backend \<Rightarrow> statement \<Rightarrow> pool \<Rightarrow> bool" where
  "refused B st p = (B st p \<or> type_refuses st p)"

definition no_failures :: backend where
  "no_failures st p = False"

definition quiet :: "backend \<Rightarrow> bool" where
  "quiet B = (\<forall>st p. \<not> B st p)"

datatype error = TypeError | FetchError | StorageError

text \<open>A statement that was sent is counted, refused or not.\<close>

definition sent :: "pool \<Rightarrow> pool" where
  "sent p = p\<lparr>queries := Suc (queries p)\<rparr>"

text \<open>
  \<^verbatim>\<open>INSERT INTO stock_likes (symbol, likes, ips) VALUES ($1, 0, '{}')
  ON CONFLICT (symbol) DO NOTHING\<close>
\<close>

definition insert_row :: "backend \<Rightarrow> string \<Rightarrow> pool \<Rightarrow> (error + unit) \<times> pool" where
  "insert_row B symbol p =
     (if refused B (Insert symbol) p then (Inl StorageError, sent p)
      else
        (Inr (),
         sent (p\<lparr>stock_likes :=
           (case stock_likes p symbol of
              None \<Rightarrow> (stock_likes p)(symbol \<mapsto> \<lparr>likes = 0, ips = []\<rparr>)
            | Some r \<Rightarrow> stock_likes p)\<rparr>)))"

text \<open>\<^verbatim>\<open>SELECT likes, ips FROM stock_likes WHERE symbol = $1\<close>: the rows found.\<close>

definition select_likes_ips :: "backend \<Rightarrow> string \<Rightarrow> pool \<Rightarrow> (error + row list) \<times> pool" where
  "select_likes_ips B symbol p =
     (if refused B (SelectLikesIps symbol) p then (Inl StorageError, sent p)
      else (Inr (case stock_likes p symbol of None \<Rightarrow> [] | Some r \<Rightarrow> [r]), sent p))"

text \<open>\<^verbatim>\<open>SELECT likes FROM stock_likes WHERE symbol = $1\<close>\<close>

definition select_likes :: "backend \<Rightarrow> string \<Rightarrow> pool \<Rightarrow> (error + int list) \<times> pool" where
  "select_likes B symbol p =
     (if refused B (SelectLikes symbol) p then (Inl StorageError, sent p)
      else (Inr (case stock_likes p symbol of None \<Rightarrow> [] | Some r \<Rightarrow> [likes r]), sent p))"

text \<open>
  \<^verbatim>\<open>UPDATE stock_likes SET likes = likes + 1, ips = array_append(ips, $2)
  WHERE symbol = $1\<close>: one statement, so both columns change together or not
  at all.
\<close>

definition update_like :: "backend \<Rightarrow> string \<Rightarrow> string \<Rightarrow> pool \<Rightarrow> (error + unit) \<times> pool" where
  "update_like B symbol ip p =
     (if refused B (Update symbol ip) p then (Inl StorageError, sent p)
      else
        (Inr (),
         sent (p\<lparr>stock_likes :=
           (case stock_likes p symbol of
              None \<Rightarrow> stock_likes p
            | Some r \<Rightarrow>
                (stock_likes p)(symbol \<mapsto> \<lparr>likes = likes r + 1, ips = ips r @ [ip]\<rparr>))\<rparr>)))"

section \<open>The helpers of \<open>server.js\<close>\<close>

text \<open>
  \<open>likeStockIfNeeded\<close> awaits each statement before the next one; a refused
  statement rejects the call there. \<open>rows[0]\<close> is \<open>undefined\<close> when the SELECT
  finds nothing, and \<open>row.ips\<close> then throws a TypeError, which rejects the
  promise as well.
\<close>

definition likeStockIfNeeded ::
  "backend \<Rightarrow> string \<Rightarrow> string \<Rightarrow> bool \<Rightarrow> pool \<Rightarrow> (error + unit) \<times> pool" where
  "likeStockIfNeeded B symbol ip likeFlag p =
     (case insert_row B symbol p of
        (Inl e, p1) \<Rightarrow> (Inl e, p1)
      | (Inr u, p1) \<Rightarrow>
          if \<not> likeFlag then (Inr (), p1)
          else
            (case select_likes_ips B symbol p1 of
               (Inl e, p2) \<Rightarrow> (Inl e, p2)
             | (Inr rows, p2) \<Rightarrow>
                 (case rows of
                    [] \<Rightarrow> (Inl TypeError, p2)
                  | row # _ \<Rightarrow>
                      let already = (ip \<in> set (ips row)) in
                      if \<not> already then update_like B symbol ip p2
                      else (Inr (), p2))))"

text \<open>\<open>rows[0]?.likes ?? 0\<close>: the count of the row, 0 when there is no row.\<close>

definition getLikes :: "backend \<Rightarrow> string \<Rightarrow> pool \<Rightarrow> (error + int) \<times> pool" where
  "getLikes B symbol p =
     (case select_likes B symbol p of
        (Inl e, p1) \<Rightarrow> (Inl e, p1)
      | (Inr rows, p1) \<Rightarrow> (Inr (case rows of [] \<Rightarrow> 0 | n # _ \<Rightarrow> n), p1))"

section \<open>The helpers of the second server file\<close>

text \<open>
  The second copy of the server names the INSERT \<open>ensureRow\<close> and calls it from
  both \<open>likeStockIfNeeded\<close> and \<open>getLikes\<close>.
\<close>

definition ensureRow :: "backend \<Rightarrow> string \<Rightarrow> pool \<Rightarrow> (error + unit) \<times> pool" where
  "ensureRow B symbol p = insert_row B symbol p"

definition likeStockIfNeeded2 ::
  "backend \<Rightarrow> string \<Rightarrow> string \<Rightarrow> bool \<Rightarrow> pool \<Rightarrow> (error + unit) \<times> pool" where
  "likeStockIfNeeded2 B symbol ip likeFlag p =
     (case ensureRow B symbol p of
        (Inl e, p1) \<Rightarrow> (Inl e, p1)
      | (Inr u, p1) \<Rightarrow>
          if \<not> likeFlag then (Inr (), p1)
          else
            (case select_likes_ips B symbol p1 of
               (Inl e, p2) \<Rightarrow> (Inl e, p2)
             | (Inr rows, p2) \<Rightarrow>
                 (case rows of
                    [] \<Rightarrow> (Inl TypeError, p2)
                  | row # _ \<Rightarrow>
                      let already = (ip \<in> set (ips row)) in
                      if \<not> already then update_like B symbol ip p2
                      else (Inr (), p2))))"

definition getLikes2 :: "backend \<Rightarrow> string \<Rightarrow> pool \<Rightarrow> (error + int) \<times> pool" where
  "getLikes2 B symbol p =
     (case ensureRow B symbol p of
        (Inl e, p0) \<Rightarrow> (Inl e, p0)
      | (Inr u, p0) \<Rightarrow>
          (case select_likes B symbol p0 of
             (Inl e, p1) \<Rightarrow> (Inl e, p1)
           | (Inr rows, p1) \<Rightarrow> (Inr (case rows of [] \<Rightarrow> 0 | n # _ \<Rightarrow> n), p1)))"

text \<open>The count and the IPs a reader of the table sees for a symbol.\<close>

definition likes_of :: "pool \<Rightarrow> string \<Rightarrow> int" where
  "likes_of p symbol = (case stock_likes p symbol of None \<Rightarrow> 0 | Some r \<Rightarrow> likes r)"

definition ips_of :: "pool \<Rightarrow> string \<Rightarrow> string list" where
  "ips_of p symbol = (case stock_likes p symbol of None \<Rightarrow> [] | Some r \<Rightarrow> ips r)"

section \<open>Sequences of store operations\<close>

text \<open>
  The operations the two files offer on the table, and a run of a list of them
  one after the other (each awaited before the next starts). A rejected call
  leaves the pool as its statements made it.
\<close>

datatype op =
    EnsureRow string
  | LikeStockIfNeeded string string bool
  | LikeStockIfNeeded2 string string bool
  | GetLikes string
  | GetLikes2 string

fun apply_op :: "backend \<Rightarrow> op \<Rightarrow> pool \<Rightarrow> pool" where
  "apply_op B (EnsureRow s) p = snd (ensureRow B s p)"
| "apply_op B (LikeStockIfNeeded s ip f) p = snd (likeStockIfNeeded B s ip f p)"
| "apply_op B (LikeStockIfNeeded2 s ip f) p = snd (likeStockIfNeeded2 B s ip f p)"
| "apply_op B (GetLikes s) p = snd (getLikes B s p)"
| "apply_op B (GetLikes2 s) p = snd (getLikes2 B s p)"

fun run_ops :: "backend \<Rightarrow> op list \<Rightarrow> pool \<Rightarrow> pool" where
  "run_ops B [] p = p"
| "run_ops B (x # xs) p = run_ops B xs (apply_op B x p)"

definition row_ok :: "row \<Rightarrow> bool" where
  "row_ok r = (likes r = int (card (set (ips r))) \<and> distinct (ips r))"

definition likes_inv :: "pool \<Rightarrow> bool" where
  "likes_inv p = (\<forall>s r. stock_likes p s = Some r \<longrightarrow> row_ok r)"

text \<open>
  \<open>n\<close> calls of a like operation with \<open>likeFlag = true\<close>, each awaited; the first
  rejection ends the run.
\<close>

fun like_n ::
  "(string \<Rightarrow> string \<Rightarrow> bool \<Rightarrow> pool \<Rightarrow> (error + unit) \<times> pool) \<Rightarrow>
   nat \<Rightarrow> string \<Rightarrow> string \<Rightarrow> pool \<Rightarrow> (error + unit) \<times> pool" where
  "like_n f 0 s ip p = (Inr (), p)"
| "like_n f (Suc n) s ip p =
     (case f s ip True p of
        (Inl e, p1) \<Rightarrow> (Inl e, p1)
      | (Inr u, p1) \<Rightarrow> like_n f n s ip p1)"

section \<open>Concurrent calls of \<open>likeStockIfNeeded\<close>\<close>

text \<open>
  An \<open>async\<close> function runs until its next \<open>await\<close>; between two awaits of one
  call, statements of other calls reach the database. A call of
  \<open>likeStockIfNeeded\<close> is therefore a small machine whose program counter says
  which statement it sends next; \<open>already\<close> has been read when the counter is
  at the UPDATE. Both files send the same three statements.
\<close>

datatype pc = AtInsert | AtSelect | AtUpdate | Resolved | Rejected error

record call =
  c_symbol :: string
  c_ip :: string
  c_likeFlag :: bool
  c_pc :: pc

definition start :: "string \<Rightarrow> string \<Rightarrow> bool \<Rightarrow> call" where
  "start symbol ip likeFlag = \<lparr>c_symbol = symbol, c_ip = ip, c_likeFlag = likeFlag, c_pc = AtInsert\<rparr>"

definition step :: "backend \<Rightarrow> call \<Rightarrow> pool \<Rightarrow> call \<times> pool" where
  "step B c p =
     (case c_pc c of
        AtInsert \<Rightarrow>
          (case insert_row B (c_symbol c) p of
             (Inl e, p1) \<Rightarrow> (c\<lparr>c_pc := Rejected e\<rparr>, p1)
           | (Inr u, p1) \<Rightarrow>
               (c\<lparr>c_pc := (if \<not> c_likeFlag c then Resolved else AtSelect)\<rparr>, p1))
      | AtSelect \<Rightarrow>
          (case select_likes_ips B (c_symbol c) p of
             (Inl e, p2) \<Rightarrow> (c\<lparr>c_pc := Rejected e\<rparr>, p2)
           | (Inr rows, p2) \<Rightarrow>
               (case rows of
                  [] \<Rightarrow> (c\<lparr>c_pc := Rejected TypeError\<rparr>, p2)
                | row # _ \<Rightarrow>
                    let already = (c_ip c \<in> set (ips row)) in
                    if \<not> already then (c\<lparr>c_pc := AtUpdate\<rparr>, p2)
                    else (c\<lparr>c_pc := Resolved\<rparr>, p2)))
      | AtUpdate \<Rightarrow>
          (case update_like B (c_symbol c) (c_ip c) p of
             (Inl e, p3) \<Rightarrow> (c\<lparr>c_pc := Rejected e\<rparr>, p3)
           | (Inr u, p3) \<Rightarrow> (c\<lparr>c_pc := Resolved\<rparr>, p3))
      | Resolved \<Rightarrow> (c, p)
      | Rejected e \<Rightarrow> (c, p))"

text \<open>
  A schedule names, statement by statement, the call whose next statement
  reaches the database; an entry for a call that has finished (or for no call)
  does nothing.
\<close>

fun interleave :: "backend \<Rightarrow> nat list \<Rightarrow> call list \<Rightarrow> pool \<Rightarrow> call list \<times> pool" where
  "interleave B [] cs p = (cs, p)"
| "interleave B (i # sched) cs p =
     (if i < length cs
      then (case step B (cs ! i) p of (c', p') \<Rightarrow> interleave B sched (cs[i := c']) p')
      else interleave B sched cs p)"

text \<open>
  Every started call completes: after the schedule, each call is given the
  (at most three) steps it may still need, in order.
\<close>

primrec finishing :: "nat \<Rightarrow> nat list" where
  "finishing 0 = []"
| "finishing (Suc n) = finishing n @ [n, n, n]"

definition promise_all :: "backend \<Rightarrow> nat list \<Rightarrow> call list \<Rightarrow> pool \<Rightarrow> call list \<times> pool" where
  "promise_all B sched cs p = interleave B (sched @ finishing (length cs)) cs p"

definition rejected :: "call \<Rightarrow> bool" where
  "rejected c = (case c_pc c of Rejected e \<Rightarrow> True | _ \<Rightarrow> False)"

section \<open>The request and its parameters\<close>

text \<open>
  A value of \<open>req.query\<close> is a string, an array of values or an object; an absent
  parameter is \<open>undefined\<close> (\<open>None\<close>).
\<close>

datatype qval = QStr string | QArr "qval list" | QObj

record request =
  q_stock :: "qval option"
  q_like :: "qval option"
  x_forwarded_for :: "string option"
  remoteAddress :: "string option"
  req_ip :: "string option"

text \<open>
  The string methods of the runtime that the handlers call are parameters of
  the model: \<open>String.prototype.toUpperCase\<close>, \<open>toLowerCase\<close> and \<open>trim\<close> follow
  the Unicode tables of the engine, which are no part of the repository.
  Nothing is assumed of them.
\<close>

record builtins =
  toUpperCase :: "string \<Rightarrow> string"
  toLowerCase :: "string \<Rightarrow> string"
  trim :: "string \<Rightarrow> string"

text \<open>
  On text made of ASCII characters the three methods are the following
  functions; the concrete runs further down use such text only.
\<close>

definition upper_char :: "char \<Rightarrow> char" where
  "upper_char c =
     (case map_of (zip ''abcdefghijklmnopqrstuvwxyz'' ''ABCDEFGHIJKLMNOPQRSTUVWXYZ'') c of
        Some u \<Rightarrow> u | None \<Rightarrow> c)"

definition lower_char :: "char \<Rightarrow> char" where
  "lower_char c =
     (case map_of (zip ''ABCDEFGHIJKLMNOPQRSTUVWXYZ'' ''abcdefghijklmnopqrstuvwxyz'') c of
        Some l \<Rightarrow> l | None \<Rightarrow> c)"

definition ascii_space :: "char \<Rightarrow> bool" where
  "ascii_space c = (c \<in> set [CHR 0x09, CHR 0x0A, CHR 0x0B, CHR 0x0C, CHR 0x0D, CHR '' ''])"

definition ascii :: builtins where
  "ascii =
     \<lparr>toUpperCase = map upper_char,
      toLowerCase = map lower_char,
      trim = (\<lambda>s. rev (dropWhile ascii_space (rev (dropWhile ascii_space s))))\<rparr>"

fun join_comma :: "string list \<Rightarrow> string" where
  "join_comma [] = []"
| "join_comma [x] = x"
| "join_comma (x # y # ys) = x @ '','' @ join_comma (y # ys)"

text \<open>\<open>String(v)\<close>: a string is itself, an array joins its elements with commas.\<close>

fun js_String :: "qval \<Rightarrow> string" where
  "js_String (QStr s) = s"
| "js_String (QArr xs) = join_comma (map js_String xs)"
| "js_String QObj = ''[object Object]''"

definition String_opt :: "qval option \<Rightarrow> string" where
  "String_opt v = (case v of None \<Rightarrow> ''undefined'' | Some x \<Rightarrow> js_String x)"

text \<open>\<open>String(stocks[i])\<close>, where an index past the end reads \<open>undefined\<close>.\<close>

definition String_at :: "qval list \<Rightarrow> nat \<Rightarrow> string" where
  "String_at xs i = String_opt (if i < length xs then Some (xs ! i) else None)"

text \<open>\<open>!stock\<close>: \<open>undefined\<close> and the empty string are falsy, arrays and objects are not.\<close>

definition falsy :: "qval option \<Rightarrow> bool" where
  "falsy v = (case v of None \<Rightarrow> True | Some (QStr s) \<Rightarrow> s = [] | Some _ \<Rightarrow> False)"

text \<open>\<open>a || b\<close> for a string that may be \<open>undefined\<close>.\<close>

definition or_else :: "string option \<Rightarrow> string \<Rightarrow> string" where
  "or_else a b = (case a of None \<Rightarrow> b | Some s \<Rightarrow> if s = [] then b else s)"

text \<open>
  \<open>if (xf)\<close> holds for a non-empty header; \<open>split(',')[0]\<close> is then the text before
  the first comma.
\<close>

definition getClientIP :: "builtins \<Rightarrow> request \<Rightarrow> string" where
  "getClientIP js req =
     (let direct = or_else (remoteAddress req) (or_else (req_ip req) ''0.0.0.0'') in
      case x_forwarded_for req of
        None \<Rightarrow> direct
      | Some xf \<Rightarrow>
          if xf = [] then direct else trim js (takeWhile (\<lambda>c. c \<noteq> CHR '','') xf))"

definition likeFlag_of :: "builtins \<Rightarrow> request \<Rightarrow> bool" where
  "likeFlag_of js req = (toLowerCase js (String_opt (q_like req)) = ''true'')"

section \<open>The handler of \<open>GET /api/stock-prices\<close> in \<open>server.js\<close>\<close>

text \<open>
  The answer of the quote proxy is a parameter: \<open>fetch symbol\<close> is \<open>None\<close> when
  the request fails, and otherwise holds \<open>data.symbol\<close> (if any) and the number
  made of \<open>data.latestPrice\<close>, whose type stays abstract.
\<close>

record 'p quote =
  q_symbol :: "string option"
  q_latestPrice :: 'p

datatype 'p response =
    BadRequest
  | ServerError
  | StockData string 'p int
  | StockPair "string \<times> 'p \<times> int" "string \<times> 'p \<times> int"

definition getStockPrice ::
  "builtins \<Rightarrow> (string \<Rightarrow> 'p quote option) \<Rightarrow> string \<Rightarrow> error + string \<times> 'p" where
  "getStockPrice js fetch symbol =
     (case fetch symbol of
        None \<Rightarrow> Inl FetchError
      | Some data \<Rightarrow> Inr (toUpperCase js (or_else (q_symbol data) symbol), q_latestPrice data))"

text \<open>
  One symbol. \<open>stocks[0].toUpperCase()\<close> throws when the element is not a
  string; every throw and every rejection ends in the \<open>catch\<close>, which answers
  500.
\<close>

definition single_stock ::
  "builtins \<Rightarrow> backend \<Rightarrow> (string \<Rightarrow> 'p quote option) \<Rightarrow> string \<Rightarrow> bool \<Rightarrow> qval list \<Rightarrow> pool \<Rightarrow>
   'p response \<times> pool" where
  "single_stock js B fetch ip likeFlag stocks p =
     (case stocks of
        QStr s0 # _ \<Rightarrow>
          (let sym = toUpperCase js s0 in
           case likeStockIfNeeded B sym ip likeFlag p of
             (Inl e, p1) \<Rightarrow> (ServerError, p1)
           | (Inr u, p1) \<Rightarrow>
               (case getStockPrice js fetch sym of
                  Inl e \<Rightarrow> (ServerError, p1)
                | Inr (s, price) \<Rightarrow>
                    (case getLikes B sym p1 of
                       (Inl e, p2) \<Rightarrow> (ServerError, p2)
                     | (Inr n, p2) \<Rightarrow> (StockData s price n, p2))))
      | _ \<Rightarrow> (ServerError, p))"

text \<open>
  Two symbols. The two \<open>likeStockIfNeeded\<close> calls run under \<open>Promise.all\<close>, so
  their statements interleave as the schedule says. The second \<open>Promise.all\<close>
  starts both reads of the count before any quote can fail.
\<close>

definition two_stocks ::
  "builtins \<Rightarrow> backend \<Rightarrow> (string \<Rightarrow> 'p quote option) \<Rightarrow> nat list \<Rightarrow> string \<Rightarrow> bool \<Rightarrow>
   qval list \<Rightarrow> pool \<Rightarrow> 'p response \<times> pool" where
  "two_stocks js B fetch sched ip likeFlag stocks p =
     (let symA = toUpperCase js (String_at stocks 0);
          symB = toUpperCase js (String_at stocks 1) in
      case promise_all B sched [start symA ip likeFlag, start symB ip likeFlag] p of
        (cs, p1) \<Rightarrow>
          if \<exists>c \<in> set cs. rejected c then (ServerError, p1)
          else
            (case getLikes B symA p1 of
               (ra, p2) \<Rightarrow>
                 (case getLikes B symB p2 of
                    (rb, p3) \<Rightarrow>
                      (case (getStockPrice js fetch symA, getStockPrice js fetch symB, ra, rb) of
                         (Inr a, Inr b, Inr likesA, Inr likesB) \<Rightarrow>
                           (let relA = likesA - likesB;
                                relB = likesB - likesA in
                            (StockPair (fst a, snd a, relA) (fst b, snd b, relB), p3))
                       | _ \<Rightarrow> (ServerError, p3)))))"

definition handler ::
  "builtins \<Rightarrow> backend \<Rightarrow> (string \<Rightarrow> 'p quote option) \<Rightarrow> nat list \<Rightarrow> request \<Rightarrow> pool \<Rightarrow>
   'p response \<times> pool" where
  "handler js B fetch sched req p =
     (let likeFlag = likeFlag_of js req;
          ip = getClientIP js req in
      if falsy (q_stock req) then (BadRequest, p)
      else
        let stocks = (case q_stock req of Some (QArr xs) \<Rightarrow> xs | Some v \<Rightarrow> [v] | None \<Rightarrow> []) in
        if length stocks = 1 then single_stock js B fetch ip likeFlag stocks p
        else two_stocks js B fetch sched ip likeFlag stocks p)"

section \<open>The handler in the second server file\<close>

text \<open>
  The second file answers a fixed price, keeps at most the first two elements
  of an array, and reads the counts with the \<open>getLikes\<close> that ensures the row.
  The two reads of the second \<open>Promise.all\<close> are taken one after the other:
  once both likes have resolved, the rows of both symbols exist and none of
  the statements of the reads changes the table, so the counts read are those
  of one and the same table in any order.
\<close>

definition getStockPrice2 :: "builtins \<Rightarrow> string \<Rightarrow> string \<times> int" where
  "getStockPrice2 js symbol = (toUpperCase js symbol, 100)"

definition single_stock2 ::
  "builtins \<Rightarrow> backend \<Rightarrow> string \<Rightarrow> bool \<Rightarrow> qval list \<Rightarrow> pool \<Rightarrow> int response \<times> pool" where
  "single_stock2 js B ip likeFlag stocks p =
     (case stocks of
        QStr s0 # _ \<Rightarrow>
          (let sym = toUpperCase js s0 in
           case likeStockIfNeeded2 B sym ip likeFlag p of
             (Inl e, p1) \<Rightarrow> (ServerError, p1)
           | (Inr u, p1) \<Rightarrow>
               (case getStockPrice2 js sym of
                  (s, price) \<Rightarrow>
                    (case getLikes2 B sym p1 of
                       (Inl e, p2) \<Rightarrow> (ServerError, p2)
                     | (Inr n, p2) \<Rightarrow> (StockData s price n, p2))))
      | _ \<Rightarrow> (ServerError, p))"

definition two_stocks2 ::
  "builtins \<Rightarrow> backend \<Rightarrow> nat list \<Rightarrow> string \<Rightarrow> bool \<Rightarrow> qval list \<Rightarrow> pool \<Rightarrow>
   int response \<times> pool" where
  "two_stocks2 js B sched ip likeFlag stocks p =
     (let symA = toUpperCase js (String_at stocks 0);
          symB = toUpperCase js (String_at stocks 1) in
      case promise_all B sched [start symA ip likeFlag, start symB ip likeFlag] p of
        (cs, p1) \<Rightarrow>
          if \<exists>c \<in> set cs. rejected c then (ServerError, p1)
          else
            (let a = getStockPrice2 js symA;
                 b = getStockPrice2 js symB in
             case getLikes2 B symA p1 of
               (ra, p2) \<Rightarrow>
                 (case getLikes2 B symB p2 of
                    (rb, p3) \<Rightarrow>
                      (case (ra, rb) of
                         (Inr likesA, Inr likesB) \<Rightarrow>
                           (let relA = likesA - likesB;
                                relB = likesB - likesA in
                            (StockPair (fst a, snd a, relA) (fst b, snd b, relB), p3))
                       | _ \<Rightarrow> (ServerError, p3)))))"

definition handler2 ::
  "builtins \<Rightarrow> backend \<Rightarrow> nat list \<Rightarrow> request \<Rightarrow> pool \<Rightarrow> int response \<times> pool" where
  "handler2 js B sched req p =
     (let likeFlag = likeFlag_of js req;
          ip = getClientIP js req in
      if falsy (q_stock req) then (BadRequest, p)
      else
        let stocks = (case q_stock req of Some (QArr xs) \<Rightarrow> take 2 xs | Some v \<Rightarrow> [v] | None \<Rightarrow> []) in
        if length stocks = 1 then single_stock2 js B ip likeFlag stocks p
        else two_stocks2 js B sched ip likeFlag stocks p)"

section \<open>The shapes of a request\<close>

text \<open>
  \<open>stock\<close> names one symbol when it is a non-empty string or an array of one
  string, and two symbols when it is an array that does not have exactly one
  element (\<open>server.js\<close> reads its first two elements as strings, the second file
  those of its first two). Any other value that is not falsy makes
  \<open>stocks[0].toUpperCase()\<close> throw.
\<close>

definition one_symbol :: "request \<Rightarrow> string \<Rightarrow> bool" where
  "one_symbol req s =
     (q_stock req = Some (QStr s) \<and> s \<noteq> [] \<or> q_stock req = Some (QArr [QStr s]))"

definition two_symbols :: "request \<Rightarrow> qval list \<Rightarrow> bool" where
  "two_symbols req xs = (q_stock req = Some (QArr xs) \<and> length xs \<noteq> 1)"

definition no_symbol :: "request \<Rightarrow> bool" where
  "no_symbol req =
     (falsy (q_stock req) \<or> q_stock req = Some QObj \<or>
      (\<exists>x. q_stock req = Some (QArr [x]) \<and> (\<forall>s. x \<noteq> QStr s)))"

section \<open>The row a like leaves\<close>

text \<open>
  \<open>liked p s ip f\<close> is the row of symbol \<open>s\<close> after one call for \<open>(s, ip, f)\<close> on
  \<open>p\<close> whose statements were all accepted: the row as it was (zero likes and no
  IP when there was none), with the IP appended and one like more when a like
  was requested and the IP was not listed.
\<close>

definition liked :: "pool \<Rightarrow> string \<Rightarrow> string \<Rightarrow> bool \<Rightarrow> row" where
  "liked p s ip f =
     (if f \<and> ip \<notin> set (ips_of p s)
      then \<lparr>likes = likes_of p s + 1, ips = ips_of p s @ [ip]\<rparr>
      else \<lparr>likes = likes_of p s, ips = ips_of p s\<rparr>)"


section \<open>Predicates used in the proofs\<close>

text \<open>
  \<open>grows p q\<close>: every row of \<open>p\<close> is still there in \<open>q\<close> and has lost no IP.
  \<open>call_ok p c\<close>: what a running call may rely on at its program counter.
  \<open>resolve c\<close>: the call \<open>c\<close> once it has resolved.
  \<open>unliked p q\<close>: \<open>q\<close> is \<open>p\<close> up to rows added with zero likes and no IP.
  \<open>rank c\<close>: the number of statements the call may still send.
  \<open>own p0 ip f s c q\<close>: the row of \<open>s\<close> in \<open>q\<close> is where the call \<open>c\<close>, the only
  one for \<open>s\<close> and started on \<open>p0\<close>, has brought it.
  \<open>live p0 q c\<close>: the call has not been rejected and cannot be.
  \<open>res c\<close>: 1 for a resolved call, 0 otherwise.
\<close>

definition grows :: "pool \<Rightarrow> pool \<Rightarrow> bool" where
  "grows p q = (\<forall>s. (stock_likes p s \<noteq> None \<longrightarrow> stock_likes q s \<noteq> None) \<and>
                     set (ips_of p s) \<subseteq> set (ips_of q s))"

definition call_ok :: "pool \<Rightarrow> call \<Rightarrow> bool" where
  "call_ok p c =
     (case c_pc c of
        AtInsert \<Rightarrow> True
      | AtSelect \<Rightarrow> c_likeFlag c \<and> stock_likes p (c_symbol c) \<noteq> None
      | AtUpdate \<Rightarrow> c_likeFlag c \<and> stock_likes p (c_symbol c) \<noteq> None
      | Resolved \<Rightarrow> stock_likes p (c_symbol c) \<noteq> None \<and>
                    (c_likeFlag c \<longrightarrow> c_ip c \<in> set (ips_of p (c_symbol c)))
      | Rejected e \<Rightarrow> True)"

definition resolve :: "call \<Rightarrow> call" where
  "resolve c = c\<lparr>c_pc := Resolved\<rparr>"

definition unliked :: "pool \<Rightarrow> pool \<Rightarrow> bool" where
  "unliked p q =
     (\<forall>k. stock_likes q k = stock_likes p k \<or>
          (stock_likes p k = None \<and> stock_likes q k = Some \<lparr>likes = 0, ips = []\<rparr>))"

definition rank :: "call \<Rightarrow> nat" where
  "rank c = (case c_pc c of AtInsert \<Rightarrow> 3 | AtSelect \<Rightarrow> 2 | AtUpdate \<Rightarrow> 1 | _ \<Rightarrow> 0)"


definition own :: "pool \<Rightarrow> string \<Rightarrow> bool \<Rightarrow> string \<Rightarrow> call \<Rightarrow> pool \<Rightarrow> bool" where
  "own p0 ip f s c q =
     (c_symbol c = s \<and> c_ip c = ip \<and> c_likeFlag c = f \<and>
      (case c_pc c of
         AtInsert \<Rightarrow> stock_likes q s = stock_likes p0 s
       | AtSelect \<Rightarrow> f \<and> stock_likes q s = Some (liked p0 s ip False)
       | AtUpdate \<Rightarrow> f \<and> stock_likes q s = Some (liked p0 s ip False) \<and> ip \<notin> set (ips_of p0 s)
       | Resolved \<Rightarrow> stock_likes q s = Some (liked p0 s ip f)
       | Rejected e \<Rightarrow> False))"

definition live :: "pool \<Rightarrow> pool \<Rightarrow> call \<Rightarrow> bool" where
  "live p0 q c =
     (text_ok (c_symbol c) \<and>
      (c_likeFlag c \<longrightarrow> text_ok (c_ip c) \<and> likes_of p0 (c_symbol c) + 1 < int4_max) \<and>
      \<not> rejected c \<and> call_ok q c)"

definition res :: "call \<Rightarrow> int" where
  "res c = (if c_pc c = Resolved then 1 else 0)"


lemmas eval_defs = likeStockIfNeeded_def likeStockIfNeeded2_def getLikes_def getLikes2_def
  ensureRow_def insert_row_def select_likes_ips_def select_likes_def update_like_def
  refused_def no_failures_def text_ok_def int4_max_def sent_def
  empty_pool_def Let_def likes_of_def ips_of_def

lemmas handler_eval_defs = handler_def handler2_def two_stocks_def two_stocks2_def
  single_stock_def single_stock2_def promise_all_def step_def start_def
  falsy_def likeFlag_of_def getClientIP_def or_else_def String_opt_def String_at_def
  ascii_def upper_char_def lower_char_def ascii_space_def rejected_def
  getStockPrice_def getStockPrice2_def


section \<open>Facts about the statements\<close>

lemma quiet_refused: "quiet B \<Longrightarrow> refused B st p = type_refuses st p"
  by (simp add: quiet_def refused_def)

lemma quiet_no_failures: "quiet no_failures"
  by (simp add: quiet_def no_failures_def)


lemma insert_row_fst:
  "fst (insert_row B s p) = (if refused B (Insert s) p then Inl StorageError else Inr ())"
  by (simp add: insert_row_def)

lemma insert_row_table:
  "stock_likes (snd (insert_row B s p)) =
     (if refused B (Insert s) p then stock_likes p
      else (case stock_likes p s of
              None \<Rightarrow> (stock_likes p)(s \<mapsto> \<lparr>likes = 0, ips = []\<rparr>)
            | Some r \<Rightarrow> stock_likes p))"
  by (simp add: insert_row_def sent_def)

lemma insert_row_cases:
  obtains (refused) p1 where "refused B (Insert s) p" "insert_row B s p = (Inl StorageError, p1)"
      "stock_likes p1 = stock_likes p"
  | (accepted) p1 where "\<not> refused B (Insert s) p" "insert_row B s p = (Inr (), p1)"
      "stock_likes p1 =
         (case stock_likes p s of
            None \<Rightarrow> (stock_likes p)(s \<mapsto> \<lparr>likes = 0, ips = []\<rparr>)
          | Some r \<Rightarrow> stock_likes p)"
  by (cases "refused B (Insert s) p") (auto simp add: insert_row_def sent_def)

lemma select_likes_ips_table: "stock_likes (snd (select_likes_ips B s p)) = stock_likes p"
  by (simp add: select_likes_ips_def sent_def)

lemma select_likes_table: "stock_likes (snd (select_likes B s p)) = stock_likes p"
  by (simp add: select_likes_def sent_def)

lemma update_like_table:
  "stock_likes (snd (update_like B s ip p)) =
     (if refused B (Update s ip) p then stock_likes p
      else (case stock_likes p s of
              None \<Rightarrow> stock_likes p
            | Some r \<Rightarrow> (stock_likes p)(s \<mapsto> \<lparr>likes = likes r + 1, ips = ips r @ [ip]\<rparr>)))"
  by (simp add: update_like_def sent_def)

lemma likes_of_cong: "stock_likes p = stock_likes q \<Longrightarrow> likes_of p = likes_of q"
  by (intro ext) (simp add: likes_of_def)

lemma ips_of_cong: "stock_likes p = stock_likes q \<Longrightarrow> ips_of p = ips_of q"
  by (intro ext) (simp add: ips_of_def)

lemma type_refuses_cong:
  "stock_likes p = stock_likes q \<Longrightarrow> type_refuses st p = type_refuses st q"
  by (cases st) simp_all

section \<open>Awaited calls\<close>

lemma likeStockIfNeeded2_eq: "likeStockIfNeeded2 = likeStockIfNeeded"
  by (intro ext) (simp add: likeStockIfNeeded2_def likeStockIfNeeded_def ensureRow_def)

text \<open>What a call does when none of its statements is refused.\<close>

lemma likeStockIfNeeded_accepted:
  assumes "quiet B" and "text_ok s"
    and "f \<longrightarrow> text_ok ip \<and> (ip \<in> set (ips_of p s) \<or> likes_of p s < int4_max)"
  shows "fst (likeStockIfNeeded B s ip f p) = Inr ()"
    and "stock_likes (snd (likeStockIfNeeded B s ip f p)) =
     (if f \<and> ip \<notin> set (ips_of p s)
      then (stock_likes p)(s \<mapsto> \<lparr>likes = likes_of p s + 1, ips = ips_of p s @ [ip]\<rparr>)
      else (case stock_likes p s of
              None \<Rightarrow> (stock_likes p)(s \<mapsto> \<lparr>likes = 0, ips = []\<rparr>)
            | Some r \<Rightarrow> stock_likes p))"
  using assms
  by (auto simp add: likeStockIfNeeded_def insert_row_def select_likes_ips_def update_like_def
      quiet_refused sent_def likes_of_def ips_of_def int4_max_def Let_def split: option.splits)

text \<open>A call never throws the TypeError: the row is there when the SELECT runs.\<close>

lemma likeStockIfNeeded_no_TypeError: "fst (likeStockIfNeeded B s ip f p) \<noteq> Inl TypeError"
  by (auto simp add: likeStockIfNeeded_def insert_row_def select_likes_ips_def update_like_def
      sent_def Let_def split: option.splits)

text \<open>Whatever is refused, a call changes no row but that of its symbol.\<close>

lemma likeStockIfNeeded_other:
  "k \<noteq> s \<Longrightarrow> stock_likes (snd (likeStockIfNeeded B s ip f p)) k = stock_likes p k"
  by (auto simp add: likeStockIfNeeded_def insert_row_def select_likes_ips_def update_like_def
      sent_def Let_def split: option.splits)

lemma getLikes_table: "stock_likes (snd (getLikes B s p)) = stock_likes p"
  by (simp add: getLikes_def select_likes_def sent_def)

lemma getLikes_fst:
  "fst (getLikes B s p) =
     (if refused B (SelectLikes s) p then Inl StorageError else Inr (likes_of p s))"
  by (simp add: getLikes_def select_likes_def likes_of_def split: option.splits)

lemma getLikes2_table: "stock_likes (snd (getLikes2 B s p)) = stock_likes (snd (insert_row B s p))"
  by (auto simp add: getLikes2_def ensureRow_def select_likes_def insert_row_def sent_def)

lemma getLikes2_value: "fst (getLikes2 B s p) = Inr n \<Longrightarrow> n = likes_of p s"
  by (auto simp add: getLikes2_def ensureRow_def select_likes_def insert_row_def sent_def
      likes_of_def split: if_splits option.splits)

lemma getLikes2_accepted:
  "quiet B \<Longrightarrow> text_ok s \<Longrightarrow> fst (getLikes2 B s p) = Inr (likes_of p s)"
  by (auto simp add: getLikes2_def ensureRow_def select_likes_def insert_row_def sent_def
      likes_of_def quiet_refused split: option.splits)

text \<open>
  C6. \<open>ensureRow\<close> (the INSERT that \<open>server.js\<close> inlines). When the INSERT is
  accepted the call resolves, creates the row with zero likes and no IPs when
  the symbol has none, leaves the whole table as it is when the symbol has a
  row, and a second call changes nothing in the table. When the INSERT is
  refused (the symbol holds NUL, or the backend fails) the call rejects with a
  storage error and the table is as it was.
\<close>

theorem ensureRow_idempotent:
  "(\<not> refused B (Insert s) p \<longrightarrow>
      fst (ensureRow B s p) = Inr () \<and>
      (stock_likes p s = None \<longrightarrow>
         stock_likes (snd (ensureRow B s p)) = (stock_likes p)(s \<mapsto> \<lparr>likes = 0, ips = []\<rparr>)) \<and>
      (\<forall>r. stock_likes p s = Some r \<longrightarrow> stock_likes (snd (ensureRow B s p)) = stock_likes p) \<and>
      stock_likes (snd (ensureRow B s (snd (ensureRow B s p)))) =
        stock_likes (snd (ensureRow B s p))) \<and>
   (refused B (Insert s) p \<longrightarrow>
      fst (ensureRow B s p) = Inl StorageError \<and>
      stock_likes (snd (ensureRow B s p)) = stock_likes p)"
  by (simp add: ensureRow_def insert_row_fst insert_row_table split: option.splits)

theorem ensureRow_idempotent_witness:
  "\<not> refused no_failures (Insert ''GOOG'') empty_pool \<and>
   fst (ensureRow no_failures ''GOOG'' empty_pool) = Inr () \<and>
   stock_likes (snd (ensureRow no_failures ''GOOG'' empty_pool)) ''GOOG'' =
     Some \<lparr>likes = 0, ips = []\<rparr> \<and>
   stock_likes (snd (ensureRow no_failures ''GOOG''
      \<lparr>stock_likes = [''GOOG'' \<mapsto> \<lparr>likes = 2, ips = [''1.2.3.4'', ''5.6.7.8'']\<rparr>], queries = 7\<rparr>))
     ''GOOG'' = Some \<lparr>likes = 2, ips = [''1.2.3.4'', ''5.6.7.8'']\<rparr>"
proof -
  define p where "p = \<lparr>stock_likes = [''GOOG'' \<mapsto> \<lparr>likes = 2, ips = [''1.2.3.4'', ''5.6.7.8'']\<rparr>],
      queries = 7\<rparr>"
  have a: "\<not> refused no_failures (Insert ''GOOG'') empty_pool"
    and b: "\<not> refused no_failures (Insert ''GOOG'') p"
    by (simp_all add: refused_def no_failures_def text_ok_def)
  have n: "stock_likes empty_pool ''GOOG'' = None"
    and s: "stock_likes p ''GOOG'' = Some \<lparr>likes = 2, ips = [''1.2.3.4'', ''5.6.7.8'']\<rparr>"
    by (simp_all add: empty_pool_def p_def)
  from ensureRow_idempotent [of no_failures "''GOOG''" empty_pool] a n
  have 1: "fst (ensureRow no_failures ''GOOG'' empty_pool) = Inr () \<and>
      stock_likes (snd (ensureRow no_failures ''GOOG'' empty_pool)) ''GOOG'' =
        Some \<lparr>likes = 0, ips = []\<rparr>"
    by simp
  from ensureRow_idempotent [of no_failures "''GOOG''" p] b s
  have 2: "stock_likes (snd (ensureRow no_failures ''GOOG'' p)) ''GOOG'' =
      Some \<lparr>likes = 2, ips = [''1.2.3.4'', ''5.6.7.8'']\<rparr>"
    by simp
  from a 1 2 show ?thesis
    unfolding p_def by simp
qed

text \<open>
  C5. With \<open>likeFlag = false\<close>, \<open>likeStockIfNeeded\<close> (in both files) sends the INSERT
  only. When it is accepted the call resolves and the symbol has a row
  afterwards, created with zero likes and no IP if there was none; when it is
  refused the call rejects with a storage error and the table is as it was. In
  both cases every row that existed is exactly as it was and no other symbol
  gets a row.
\<close>

theorem like_not_requested:
  "(\<not> refused B (Insert s) p \<longrightarrow>
      fst (likeStockIfNeeded B s ip False p) = Inr () \<and>
      stock_likes (snd (likeStockIfNeeded B s ip False p)) s \<noteq> None \<and>
      (stock_likes p s = None \<longrightarrow>
         stock_likes (snd (likeStockIfNeeded B s ip False p)) s = Some \<lparr>likes = 0, ips = []\<rparr>)) \<and>
   (refused B (Insert s) p \<longrightarrow>
      fst (likeStockIfNeeded B s ip False p) = Inl StorageError \<and>
      stock_likes (snd (likeStockIfNeeded B s ip False p)) = stock_likes p) \<and>
   (\<forall>s' r. stock_likes p s' = Some r \<longrightarrow>
      stock_likes (snd (likeStockIfNeeded B s ip False p)) s' = Some r) \<and>
   (\<forall>s'. s' \<noteq> s \<longrightarrow>
      stock_likes (snd (likeStockIfNeeded B s ip False p)) s' = stock_likes p s') \<and>
   likeStockIfNeeded2 B s ip False p = likeStockIfNeeded B s ip False p"
  by (auto simp add: likeStockIfNeeded2_eq likeStockIfNeeded_def insert_row_def sent_def
      split: option.splits)

theorem like_not_requested_witness:
  "\<not> refused no_failures (Insert ''MSFT'')
      \<lparr>stock_likes = [''GOOG'' \<mapsto> \<lparr>likes = 1, ips = [''1.2.3.4'']\<rparr>], queries = 0\<rparr> \<and>
   stock_likes (snd (likeStockIfNeeded no_failures ''MSFT'' ''9.9.9.9'' False
      \<lparr>stock_likes = [''GOOG'' \<mapsto> \<lparr>likes = 1, ips = [''1.2.3.4'']\<rparr>], queries = 0\<rparr>)) ''GOOG''
     = Some \<lparr>likes = 1, ips = [''1.2.3.4'']\<rparr> \<and>
   stock_likes (snd (likeStockIfNeeded no_failures ''MSFT'' ''9.9.9.9'' False
      \<lparr>stock_likes = [''GOOG'' \<mapsto> \<lparr>likes = 1, ips = [''1.2.3.4'']\<rparr>], queries = 0\<rparr>)) ''MSFT''
     = Some \<lparr>likes = 0, ips = []\<rparr>"
proof -
  define p where "p = \<lparr>stock_likes = [''GOOG'' \<mapsto> \<lparr>likes = 1, ips = [''1.2.3.4'']\<rparr>], queries = 0\<rparr>"
  have a: "\<not> refused no_failures (Insert ''MSFT'') p"
    by (simp add: refused_def no_failures_def text_ok_def)
  have g: "stock_likes p ''GOOG'' = Some \<lparr>likes = 1, ips = [''1.2.3.4'']\<rparr>"
    and m: "stock_likes p ''MSFT'' = None"
    by (simp_all add: p_def)
  from like_not_requested [of no_failures "''MSFT''" p "''9.9.9.9''"] a g m
  have "stock_likes (snd (likeStockIfNeeded no_failures ''MSFT'' ''9.9.9.9'' False p)) ''GOOG''
      = Some \<lparr>likes = 1, ips = [''1.2.3.4'']\<rparr> \<and>
    stock_likes (snd (likeStockIfNeeded no_failures ''MSFT'' ''9.9.9.9'' False p)) ''MSFT''
      = Some \<lparr>likes = 0, ips = []\<rparr>"
    by blast
  with a show ?thesis
    unfolding p_def by simp
qed

lemma likeStockIfNeeded_again:
  assumes "ip \<in> set (ips_of p s)" and "quiet B" and "text_ok s" and "text_ok ip"
  shows "fst (likeStockIfNeeded B s ip True p) = Inr ()"
    and "stock_likes (snd (likeStockIfNeeded B s ip True p)) = stock_likes p"
  using likeStockIfNeeded_accepted [of B s True ip p] assms
  by (auto simp add: ips_of_def split: option.splits)

lemma like_n_again:
  assumes "ip \<in> set (ips_of p s)" and "quiet B" and "text_ok s" and "text_ok ip"
  shows "fst (like_n (likeStockIfNeeded B) n s ip p) = Inr () \<and>
         stock_likes (snd (like_n (likeStockIfNeeded B) n s ip p)) = stock_likes p"
  using assms(1)
proof (induction n arbitrary: p)
  case 0
  then show ?case by simp
next
  case (Suc n)
  obtain p1 where p1: "likeStockIfNeeded B s ip True p = (Inr (), p1)"
    using likeStockIfNeeded_again(1) [OF Suc.prems assms(2-4)]
    by (cases "likeStockIfNeeded B s ip True p") auto
  have same: "stock_likes p1 = stock_likes p"
    using likeStockIfNeeded_again(2) [OF Suc.prems assms(2-4)] p1 by simp
  then have "ip \<in> set (ips_of p1 s)"
    using Suc.prems by (simp add: ips_of_def)
  from Suc.IH [OF this] show ?case
    by (simp add: p1 same)
qed

text \<open>
  C3. From any pool in which the IP is not yet recorded for the symbol, with
  symbol and IP free of NUL and no failure of the backend: when the count is
  below the INTEGER maximum, \<open>n \<ge> 1\<close> awaited calls of
  \<open>likeStockIfNeeded(s, ip, true)\<close> all resolve and raise the count of \<open>s\<close> by
  exactly 1, and the table after \<open>n\<close> calls is the table after the first call,
  so the later calls change nothing; when the count is at the maximum, the
  first call rejects with a storage error and the table is as it was. Both
  files behave alike.
\<close>

theorem same_ip_counts_once:
  assumes "0 < n" and "ip \<notin> set (ips_of p s)"
    and "quiet B" and "text_ok s" and "text_ok ip"
  shows "(likes_of p s < int4_max \<longrightarrow>
            fst (like_n (likeStockIfNeeded B) n s ip p) = Inr () \<and>
            likes_of (snd (like_n (likeStockIfNeeded B) n s ip p)) s = likes_of p s + 1 \<and>
            stock_likes (snd (like_n (likeStockIfNeeded B) n s ip p)) =
              stock_likes (snd (likeStockIfNeeded B s ip True p))) \<and>
         (int4_max \<le> likes_of p s \<longrightarrow>
            fst (like_n (likeStockIfNeeded B) n s ip p) = Inl StorageError \<and>
            stock_likes (snd (like_n (likeStockIfNeeded B) n s ip p)) = stock_likes p) \<and>
         like_n (likeStockIfNeeded2 B) n s ip p = like_n (likeStockIfNeeded B) n s ip p"
proof (intro conjI impI)
  obtain m where n: "n = Suc m"
    using assms(1) by (cases n) auto
  show "like_n (likeStockIfNeeded2 B) n s ip p = like_n (likeStockIfNeeded B) n s ip p"
    by (simp add: likeStockIfNeeded2_eq)
  {
    assume room: "likes_of p s < int4_max"
    have acc: "True \<longrightarrow> text_ok ip \<and> (ip \<in> set (ips_of p s) \<or> likes_of p s < int4_max)"
      using assms(5) room by simp
    obtain p1 where p1: "likeStockIfNeeded B s ip True p = (Inr (), p1)"
      using likeStockIfNeeded_accepted(1) [OF assms(3,4) acc]
      by (cases "likeStockIfNeeded B s ip True p") auto
    have t1: "stock_likes p1 =
        (stock_likes p)(s \<mapsto> \<lparr>likes = likes_of p s + 1, ips = ips_of p s @ [ip]\<rparr>)"
      using likeStockIfNeeded_accepted(2) [OF assms(3,4) acc] p1 assms(2) by simp
    have in1: "ip \<in> set (ips_of p1 s)" and l1: "likes_of p1 s = likes_of p s + 1"
      by (simp_all add: t1 ips_of_def likes_of_def)
    have rest: "fst (like_n (likeStockIfNeeded B) m s ip p1) = Inr () \<and>
        stock_likes (snd (like_n (likeStockIfNeeded B) m s ip p1)) = stock_likes p1"
      by (rule like_n_again [OF in1 assms(3-5)])
    then have "likes_of (snd (like_n (likeStockIfNeeded B) m s ip p1)) s = likes_of p1 s"
      by (simp add: likes_of_def)
    with rest l1
    show "fst (like_n (likeStockIfNeeded B) n s ip p) = Inr ()"
      and "likes_of (snd (like_n (likeStockIfNeeded B) n s ip p)) s = likes_of p s + 1"
      and "stock_likes (snd (like_n (likeStockIfNeeded B) n s ip p)) =
              stock_likes (snd (likeStockIfNeeded B s ip True p))"
      by (simp_all add: n p1)
  }
  {
    assume full: "int4_max \<le> likes_of p s"
    have "fst (likeStockIfNeeded B s ip True p) = Inl StorageError \<and>
        stock_likes (snd (likeStockIfNeeded B s ip True p)) = stock_likes p"
      using full assms(2-5)
      by (auto simp add: likeStockIfNeeded_def insert_row_def select_likes_ips_def
          update_like_def quiet_refused sent_def likes_of_def ips_of_def int4_max_def Let_def
          split: option.splits)
    then show "fst (like_n (likeStockIfNeeded B) n s ip p) = Inl StorageError"
      and "stock_likes (snd (like_n (likeStockIfNeeded B) n s ip p)) = stock_likes p"
      by (cases "likeStockIfNeeded B s ip True p"; simp add: n)+
  }
qed

theorem same_ip_counts_once_witness:
  "(0::nat) < 3 \<and> ''1.2.3.4'' \<notin> set (ips_of empty_pool ''GOOG'') \<and> quiet no_failures \<and>
   text_ok ''GOOG'' \<and> text_ok ''1.2.3.4'' \<and> likes_of empty_pool ''GOOG'' < int4_max \<and>
   likes_of (snd (like_n (likeStockIfNeeded no_failures) 3 ''GOOG'' ''1.2.3.4'' empty_pool)) ''GOOG'' = 1"
proof -
  have h1: "(0::nat) < 3" by simp
  have h2: "''1.2.3.4'' \<notin> set (ips_of empty_pool ''GOOG'')"
    by (simp add: ips_of_def empty_pool_def)
  have h4: "text_ok ''GOOG''" and h5: "text_ok ''1.2.3.4''"
    by (simp_all add: text_ok_def)
  have l: "likes_of empty_pool ''GOOG'' = 0"
    by (simp add: likes_of_def empty_pool_def)
  then have h6: "likes_of empty_pool ''GOOG'' < int4_max"
    by (simp add: int4_max_def)
  from same_ip_counts_once [OF h1 h2 quiet_no_failures h4 h5] h6
  have "likes_of (snd (like_n (likeStockIfNeeded no_failures) 3 ''GOOG'' ''1.2.3.4'' empty_pool))
      ''GOOG'' = likes_of empty_pool ''GOOG'' + 1"
    by blast
  with l h1 h2 h4 h5 h6 quiet_no_failures show ?thesis
    by simp
qed




section \<open>The invariant under awaited operations\<close>

lemma row_ok_fresh: "row_ok \<lparr>likes = 0, ips = []\<rparr>"
  by (simp add: row_ok_def)

lemma likes_inv_insert_row: "likes_inv p \<Longrightarrow> likes_inv (snd (insert_row B s p))"
  by (auto simp add: likes_inv_def insert_row_table row_ok_fresh split: option.splits if_splits)

lemma likes_inv_like:
  assumes "likes_inv p"
  shows "likes_inv (snd (likeStockIfNeeded B s ip f p))"
  using assms
  by (auto simp add: likes_inv_def likeStockIfNeeded_def insert_row_def select_likes_ips_def
      update_like_def sent_def row_ok_def Let_def split: option.splits if_splits)

lemma likes_inv_cong: "stock_likes p = stock_likes q \<Longrightarrow> likes_inv p = likes_inv q"
  by (simp add: likes_inv_def)

lemma likes_inv_apply_op: "likes_inv p \<Longrightarrow> likes_inv (apply_op B x p)"
proof (cases x)
  case (GetLikes s)
  assume "likes_inv p"
  then show ?thesis
    using likes_inv_cong [OF getLikes_table, of B s p] by (simp add: GetLikes)
next
  case (GetLikes2 s)
  assume "likes_inv p"
  from likes_inv_insert_row [OF this, of B s] show ?thesis
    using likes_inv_cong [OF getLikes2_table, of B s p] by (simp add: GetLikes2)
qed (simp_all add: ensureRow_def likes_inv_insert_row likes_inv_like likeStockIfNeeded2_eq)

text \<open>
  Operations that are awaited one after the other keep the invariant, whatever
  the backend refuses.
\<close>

lemma likes_inv_run_ops: "likes_inv p \<Longrightarrow> likes_inv (run_ops B xs p)"
  by (induction xs arbitrary: p) (simp_all add: likes_inv_apply_op)

lemma likes_inv_empty: "likes_inv empty_pool"
  by (simp add: likes_inv_def empty_pool_def)

section \<open>Interleaved calls\<close>

subsection \<open>Any interleaving keeps what every statement keeps\<close>

lemma interleave_inv:
  assumes stp: "\<And>cs p i. J cs p \<Longrightarrow> i < length cs \<Longrightarrow>
      J (cs[i := fst (step B (cs ! i) p)]) (snd (step B (cs ! i) p))"
    and init: "J cs p"
  shows "J (fst (interleave B sched cs p)) (snd (interleave B sched cs p))"
  using init
proof (induction sched arbitrary: cs p)
  case Nil
  then show ?case by simp
next
  case (Cons i sched)
  show ?case
  proof (cases "i < length cs")
    case False
    with Cons show ?thesis by simp
  next
    case True
    from stp [OF Cons.prems True]
    have "J (cs[i := fst (step B (cs ! i) p)]) (snd (step B (cs ! i) p))" .
    from Cons.IH [OF this] True show ?thesis
      by (simp add: split_beta)
  qed
qed

lemma promise_all_inv:
  assumes "\<And>cs p i. J cs p \<Longrightarrow> i < length cs \<Longrightarrow>
      J (cs[i := fst (step B (cs ! i) p)]) (snd (step B (cs ! i) p))"
    and "J cs p"
  shows "J (fst (promise_all B sched cs p)) (snd (promise_all B sched cs p))"
  unfolding promise_all_def using assms by (rule interleave_inv)

lemma promise_all_rel:
  assumes refl: "\<And>p. R p p"
    and trans: "\<And>p q r. R p q \<Longrightarrow> R q r \<Longrightarrow> R p r"
    and mono: "\<And>p q c. I p c \<Longrightarrow> R p q \<Longrightarrow> I q c"
    and stp: "\<And>p c. I p c \<Longrightarrow> I (snd (step B c p)) (fst (step B c p)) \<and> R p (snd (step B c p))"
    and init: "\<forall>c \<in> set cs. I p c"
  shows "(\<forall>c \<in> set (fst (promise_all B sched cs p)). I (snd (promise_all B sched cs p)) c) \<and>
         R p (snd (promise_all B sched cs p))"
proof -
  define J where "J = (\<lambda>ds q. (\<forall>c \<in> set ds. I q c) \<and> R p q)"
  have "J (fst (promise_all B sched cs p)) (snd (promise_all B sched cs p))"
  proof (rule promise_all_inv)
    show "J cs p"
      using init by (simp add: J_def refl)
  next
    fix ds q i
    assume j: "J ds q" and i: "i < length ds"
    then have "I q (ds ! i)"
      by (simp add: J_def)
    from stp [OF this]
    have s: "I (snd (step B (ds ! i) q)) (fst (step B (ds ! i) q))"
      and r: "R q (snd (step B (ds ! i) q))"
      by simp_all
    have "\<forall>c \<in> set (ds[i := fst (step B (ds ! i) q)]). I (snd (step B (ds ! i) q)) c"
    proof
      fix c assume "c \<in> set (ds[i := fst (step B (ds ! i) q)])"
      then have "c = fst (step B (ds ! i) q) \<or> c \<in> set ds"
        using set_update_subset_insert [of ds i] by auto
      then show "I (snd (step B (ds ! i) q)) c"
        using s r j mono by (auto simp add: J_def)
    qed
    moreover have "R p (snd (step B (ds ! i) q))"
      using j r trans by (auto simp add: J_def)
    ultimately show "J (ds[i := fst (step B (ds ! i) q)]) (snd (step B (ds ! i) q))"
      by (simp add: J_def)
  qed
  then show ?thesis
    by (simp add: J_def)
qed

subsection \<open>The calls stay the calls they were, and all of them finish\<close>

lemma step_resolve: "resolve (fst (step B c p)) = resolve c"
  by (cases "c_pc c")
    (auto simp add: step_def resolve_def insert_row_def select_likes_ips_def update_like_def
      Let_def split: option.splits)

lemma interleave_resolve: "map resolve (fst (interleave B sched cs p)) = map resolve cs"
proof (induction sched arbitrary: cs p)
  case Nil
  show ?case by simp
next
  case (Cons i sched)
  show ?case
  proof (cases "i < length cs")
    case False
    with Cons show ?thesis by simp
  next
    case True
    have "map resolve (cs[i := fst (step B (cs ! i) p)]) = map resolve cs"
      using True by (simp add: map_update step_resolve list_update_same_conv)
    with Cons [of "cs[i := fst (step B (cs ! i) p)]" "snd (step B (cs ! i) p)"] True
    show ?thesis by (simp add: split_beta)
  qed
qed

lemma promise_all_resolve: "map resolve (fst (promise_all B sched cs p)) = map resolve cs"
  by (simp add: promise_all_def interleave_resolve)

lemma step_rank: "rank (fst (step B c p)) \<le> rank c - 1"
  by (cases "c_pc c")
    (auto simp add: step_def rank_def insert_row_def select_likes_ips_def update_like_def
      Let_def split: option.splits)

lemma interleave_rank:
  "j < length cs \<Longrightarrow>
   rank (fst (interleave B sched cs p) ! j) \<le> rank (cs ! j) - count_list sched j"
proof (induction sched arbitrary: cs p)
  case Nil
  show ?case by simp
next
  case (Cons i sched)
  show ?case
  proof (cases "i < length cs")
    case False
    with Cons.prems have "i \<noteq> j" by auto
    with Cons False show ?thesis by simp
  next
    case True
    define cs' where "cs' = cs[i := fst (step B (cs ! i) p)]"
    have len: "j < length cs'"
      using Cons.prems by (simp add: cs'_def)
    have "rank (cs' ! j) \<le> (if i = j then rank (cs ! j) - 1 else rank (cs ! j))"
      using Cons.prems step_rank [of B "cs ! j" p] by (simp add: cs'_def)
    with Cons.IH [OF len, of "snd (step B (cs ! i) p)"] True show ?thesis
      by (auto simp add: split_beta cs'_def)
  qed
qed

lemma count_list_finishing: "count_list (finishing n) j = (if j < n then 3 else 0)"
  by (induction n) auto

lemma promise_all_finished:
  assumes "c \<in> set (fst (promise_all B sched cs p))"
  shows "rank c = 0"
proof -
  have len: "length (fst (promise_all B sched cs p)) = length cs"
    using promise_all_resolve [of B sched cs p, THEN arg_cong, of length] by simp
  from assms obtain j where j: "j < length cs" and c: "c = fst (promise_all B sched cs p) ! j"
    by (auto simp add: in_set_conv_nth len)
  have "rank (cs ! j) \<le> 3"
    by (simp add: rank_def split: pc.splits)
  then show ?thesis
    using interleave_rank [OF j, of B "sched @ finishing (length cs)" p] j
    by (simp add: c promise_all_def count_list_finishing)
qed

lemma finished_resolved: "rank c = 0 \<Longrightarrow> \<not> rejected c \<Longrightarrow> c = resolve c"
  by (cases "c_pc c") (simp_all add: rank_def rejected_def resolve_def)

text \<open>When no call was rejected, the calls are the resolved calls.\<close>

lemma promise_all_resolved:
  assumes "\<not> (\<exists>c \<in> set (fst (promise_all B sched cs p)). rejected c)"
  shows "fst (promise_all B sched cs p) = map resolve cs"
proof -
  have "\<forall>c \<in> set (fst (promise_all B sched cs p)). c = resolve c"
    using assms promise_all_finished finished_resolved by blast
  then have "map resolve (fst (promise_all B sched cs p)) = fst (promise_all B sched cs p)"
    by (simp add: map_idI)
  then show ?thesis
    by (simp add: promise_all_resolve)
qed

subsection \<open>Rows stay, and a resolved call has done its work\<close>

lemma grows_refl: "grows p p"
  by (simp add: grows_def)

lemma grows_trans: "grows p q \<Longrightarrow> grows q r \<Longrightarrow> grows p r"
  unfolding grows_def by blast

lemma call_ok_grows: "call_ok p c \<Longrightarrow> grows p q \<Longrightarrow> call_ok q c"
  unfolding call_ok_def grows_def by (cases "c_pc c") auto

lemma grows_cong: "stock_likes q = stock_likes q' \<Longrightarrow> grows p q = grows p q'"
  by (simp add: grows_def ips_of_def)

lemma grows_insert_row: "grows p (snd (insert_row B s p))"
  by (auto simp add: grows_def insert_row_table ips_of_def split: option.splits)

lemma grows_update_like: "grows p (snd (update_like B s ip p))"
  by (auto simp add: grows_def update_like_table ips_of_def split: option.splits)

lemma grows_select: "grows p (snd (select_likes_ips B s p))"
  by (simp add: grows_def select_likes_ips_table ips_of_def)

lemma step_grows: "grows p (snd (step B c p))"
proof (cases "c_pc c")
  case AtInsert
  then show ?thesis
    using grows_insert_row [of p B "c_symbol c"]
    by (simp add: step_def split_beta split: sum.splits)
next
  case AtSelect
  then show ?thesis
    using grows_select [of p B "c_symbol c"]
    by (simp add: step_def split_beta Let_def split: sum.splits list.splits)
next
  case AtUpdate
  then show ?thesis
    using grows_update_like [of p B "c_symbol c" "c_ip c"]
    by (simp add: step_def split_beta split: sum.splits)
qed (simp_all add: step_def grows_refl)

lemma step_call_ok: "call_ok p c \<Longrightarrow> call_ok (snd (step B c p)) (fst (step B c p))"
  by (cases "c_pc c")
    (auto simp add: step_def call_ok_def Let_def select_likes_ips_def insert_row_def
      update_like_def sent_def ips_of_def split: option.splits)

lemma promise_all_ok:
  assumes "\<forall>c \<in> set cs. call_ok p c"
  shows "(\<forall>c \<in> set (fst (promise_all B sched cs p)). call_ok (snd (promise_all B sched cs p)) c) \<and>
         grows p (snd (promise_all B sched cs p))"
  using assms
  by (rule promise_all_rel [where R = grows and I = call_ok, rotated 4])
    (simp_all add: grows_refl step_call_ok step_grows, (blast intro: grows_trans call_ok_grows)+)

lemma call_ok_start: "call_ok p (start s ip f)"
  by (simp add: call_ok_def start_def)

lemma not_rejected_resolve: "\<not> rejected (resolve c)"
  by (simp add: rejected_def resolve_def)

text \<open>Two calls under \<open>Promise.all\<close>, whatever is refused: when neither is rejected,
  both rows exist and a requested like has listed the IP in both.\<close>

lemma promise_all_two:
  assumes "\<not> (\<exists>c \<in> set (fst (promise_all B sched [start a ip f, start b ip f] p)). rejected c)"
  shows "fst (promise_all B sched [start a ip f, start b ip f] p) =
           [resolve (start a ip f), resolve (start b ip f)]"
    and "stock_likes (snd (promise_all B sched [start a ip f, start b ip f] p)) a \<noteq> None"
    and "stock_likes (snd (promise_all B sched [start a ip f, start b ip f] p)) b \<noteq> None"
    and "f \<longrightarrow> ip \<in> set (ips_of (snd (promise_all B sched [start a ip f, start b ip f] p)) a) \<and>
          ip \<in> set (ips_of (snd (promise_all B sched [start a ip f, start b ip f] p)) b)"
proof -
  show r: "fst (promise_all B sched [start a ip f, start b ip f] p) =
           [resolve (start a ip f), resolve (start b ip f)]"
    using promise_all_resolved [OF assms] by simp
  have "\<forall>c \<in> set (fst (promise_all B sched [start a ip f, start b ip f] p)).
      call_ok (snd (promise_all B sched [start a ip f, start b ip f] p)) c"
    using promise_all_ok [of "[start a ip f, start b ip f]" p B sched]
    by (simp add: call_ok_start)
  then have ok:
    "call_ok (snd (promise_all B sched [start a ip f, start b ip f] p)) (resolve (start a ip f))"
    "call_ok (snd (promise_all B sched [start a ip f, start b ip f] p)) (resolve (start b ip f))"
    by (simp_all add: r)
  from ok show
    "stock_likes (snd (promise_all B sched [start a ip f, start b ip f] p)) a \<noteq> None"
    "stock_likes (snd (promise_all B sched [start a ip f, start b ip f] p)) b \<noteq> None"
    "f \<longrightarrow> ip \<in> set (ips_of (snd (promise_all B sched [start a ip f, start b ip f] p)) a) \<and>
          ip \<in> set (ips_of (snd (promise_all B sched [start a ip f, start b ip f] p)) b)"
    by (simp_all add: call_ok_def resolve_def start_def)
qed

subsection \<open>Calls without a like\<close>

lemma unliked_refl: "unliked p p"
  by (simp add: unliked_def)

lemma unliked_trans: "unliked p q \<Longrightarrow> unliked q r \<Longrightarrow> unliked p r"
  unfolding unliked_def by (metis option.distinct(1))

lemma unliked_cong: "stock_likes q = stock_likes q' \<Longrightarrow> unliked p q = unliked p q'"
  by (simp add: unliked_def)

lemma unliked_insert_row: "unliked p (snd (insert_row B s p))"
  by (simp add: unliked_def insert_row_table split: option.splits)

lemma unliked_same: "unliked p q \<Longrightarrow> likes_of q = likes_of p \<and> ips_of q = ips_of p"
  unfolding unliked_def likes_of_def ips_of_def
  by (intro conjI ext) (metis option.simps(4,5) row.simps(1,2))+

lemma step_unliked:
  assumes "\<not> c_likeFlag c \<and> c_pc c \<noteq> AtSelect \<and> c_pc c \<noteq> AtUpdate"
  shows "(\<not> c_likeFlag (fst (step B c p)) \<and> c_pc (fst (step B c p)) \<noteq> AtSelect \<and>
          c_pc (fst (step B c p)) \<noteq> AtUpdate) \<and>
         unliked p (snd (step B c p))"
proof (cases "c_pc c")
  case AtInsert
  then show ?thesis
    using assms unliked_insert_row [of p B "c_symbol c"]
    by (auto simp add: step_def split_beta split: sum.splits)
qed (use assms in \<open>simp_all add: step_def unliked_refl\<close>)

lemma promise_all_unliked:
  assumes "\<forall>c \<in> set cs. \<not> c_likeFlag c \<and> c_pc c \<noteq> AtSelect \<and> c_pc c \<noteq> AtUpdate"
  shows "unliked p (snd (promise_all B sched cs p))"
proof -
  have "(\<forall>c \<in> set (fst (promise_all B sched cs p)).
           \<not> c_likeFlag c \<and> c_pc c \<noteq> AtSelect \<and> c_pc c \<noteq> AtUpdate) \<and>
        unliked p (snd (promise_all B sched cs p))"
    using assms
    by (rule promise_all_rel [where R = unliked
          and I = "\<lambda>p c. \<not> c_likeFlag c \<and> c_pc c \<noteq> AtSelect \<and> c_pc c \<noteq> AtUpdate", rotated 4])
      (simp_all add: unliked_refl step_unliked, (blast intro: unliked_trans)+)
  then show ?thesis by simp
qed

subsection \<open>Two calls none of whose statements is refused\<close>

lemma live_grows: "live p0 q c \<Longrightarrow> grows q q' \<Longrightarrow> live p0 q' c"
  by (auto simp add: live_def intro: call_ok_grows)

lemma likes_of_insert_row: "likes_of (snd (insert_row B s q)) = likes_of q"
  by (intro ext) (simp add: likes_of_def insert_row_table split: option.splits)

lemma ips_of_insert_row: "ips_of (snd (insert_row B s q)) = ips_of q"
  by (intro ext) (simp add: ips_of_def insert_row_table split: option.splits)

lemma step_likes_of: "c_pc c \<noteq> AtUpdate \<Longrightarrow> likes_of (snd (step B c q)) = likes_of q"
proof (cases "c_pc c")
  case AtInsert
  then show ?thesis
    using likes_of_insert_row [of B "c_symbol c" q]
    by (simp add: step_def split_beta split: sum.splits)
next
  case AtSelect
  then show ?thesis
    using likes_of_cong [OF select_likes_ips_table, of B "c_symbol c" q]
    by (simp add: step_def split_beta Let_def split: sum.splits list.splits)
qed (simp_all add: step_def)

lemma step_res: "c_pc c \<noteq> AtUpdate \<Longrightarrow> res c \<le> res (fst (step B c q))"
  by (cases "c_pc c")
    (auto simp add: step_def res_def split_beta Let_def split: sum.splits list.splits)

lemma step_live:
  assumes "quiet B" and "live p0 q c" and "c_pc c \<noteq> AtUpdate"
  shows "live p0 (snd (step B c q)) (fst (step B c q))"
proof (cases "c_pc c")
  case AtInsert
  with assms show ?thesis
    by (auto simp add: step_def live_def call_ok_def rejected_def insert_row_def
        quiet_refused sent_def ips_of_def split: option.splits)
next
  case AtSelect
  with assms show ?thesis
    by (auto simp add: step_def live_def call_ok_def rejected_def select_likes_ips_def
        quiet_refused sent_def ips_of_def Let_def split: option.splits)
qed (use assms in \<open>simp_all add: step_def\<close>)

lemma live_step:
  assumes "quiet B" and "live p0 q c"
    and "\<forall>k. likes_of q k \<le> likes_of p0 k + res c + n" and "n \<le> 1"
  shows "live p0 (snd (step B c q)) (fst (step B c q)) \<and>
         (\<forall>k. likes_of (snd (step B c q)) k \<le> likes_of p0 k + res (fst (step B c q)) + n)"
proof (cases "c_pc c = AtUpdate")
  case False
  have "\<forall>k. likes_of (snd (step B c q)) k \<le> likes_of p0 k + res (fst (step B c q)) + n"
  proof
    fix k
    show "likes_of (snd (step B c q)) k \<le> likes_of p0 k + res (fst (step B c q)) + n"
      using assms(3) [rule_format, of k] step_res [OF False, of B q]
      by (simp add: step_likes_of [OF False])
  qed
  with step_live [OF assms(1,2) False] show ?thesis
    by simp
next
  case True
  from assms(2) True obtain r where r: "stock_likes q (c_symbol c) = Some r"
    and t: "text_ok (c_symbol c)" "text_ok (c_ip c)"
    and room: "likes_of p0 (c_symbol c) + 1 < int4_max"
    by (auto simp add: live_def call_ok_def)
  have "likes r \<le> likes_of p0 (c_symbol c) + n"
    using assms(3) [rule_format, of "c_symbol c"] r True
    by (simp add: likes_of_def res_def)
  with room assms(4) have lt: "likes r < int4_max"
    by simp
  have acc: "\<not> refused B (Update (c_symbol c) (c_ip c)) q"
    using assms(1) t lt r by (simp add: quiet_refused)
  have st: "step B c q = (c\<lparr>c_pc := Resolved\<rparr>, snd (update_like B (c_symbol c) (c_ip c) q))"
    using True acc by (simp add: step_def update_like_def)
  have tbl: "stock_likes (snd (update_like B (c_symbol c) (c_ip c) q)) =
      (stock_likes q)(c_symbol c \<mapsto> \<lparr>likes = likes r + 1, ips = ips r @ [c_ip c]\<rparr>)"
    using acc r by (simp add: update_like_table)
  have bound: "\<forall>k. likes_of (snd (step B c q)) k \<le> likes_of p0 k + res (fst (step B c q)) + n"
  proof
    fix k
    show "likes_of (snd (step B c q)) k \<le> likes_of p0 k + res (fst (step B c q)) + n"
      using assms(3) [rule_format, of k] r True
      by (cases "k = c_symbol c") (simp_all add: st likes_of_def tbl res_def)
  qed
  have "live p0 (snd (step B c q)) (fst (step B c q))"
    using assms(2) True
    by (simp add: st live_def call_ok_def rejected_def tbl ips_of_def)
  with bound show ?thesis
    by simp
qed

lemma promise_all_two_accepted:
  assumes "quiet B" and "text_ok a" and "text_ok b"
    and "f \<longrightarrow> text_ok ip \<and> likes_of p a + 1 < int4_max \<and> likes_of p b + 1 < int4_max"
  shows "\<not> (\<exists>c \<in> set (fst (promise_all B sched [start a ip f, start b ip f] p)). rejected c)"
proof -
  define J where "J = (\<lambda>cs q. \<exists>ca cb. cs = [ca, cb] \<and> live p q ca \<and> live p q cb \<and>
      (\<forall>k. likes_of q k \<le> likes_of p k + res ca + res cb))"
  have "J (fst (promise_all B sched [start a ip f, start b ip f] p))
      (snd (promise_all B sched [start a ip f, start b ip f] p))"
  proof (rule promise_all_inv)
    show "J [start a ip f, start b ip f] p"
      using assms
      by (simp add: J_def live_def start_def rejected_def call_ok_def res_def)
  next
    fix cs q i
    assume j: "J cs q" and i: "i < length cs"
    then obtain ca cb where cs: "cs = [ca, cb]" and la: "live p q ca" and lb: "live p q cb"
      and b: "\<forall>k. likes_of q k \<le> likes_of p k + res ca + res cb"
      by (auto simp add: J_def)
    have r1: "res ca \<le> 1" "res cb \<le> 1"
      by (simp_all add: res_def)
    from i cs have "i = 0 \<or> i = 1"
      by auto
    then show "J (cs[i := fst (step B (cs ! i) q)]) (snd (step B (cs ! i) q))"
    proof
      assume i0: "i = 0"
      from live_step [OF assms(1) la b r1(2)] live_grows [OF lb step_grows, of B ca]
      show ?thesis
        by (auto simp add: J_def cs i0)
    next
      assume i1: "i = 1"
      have b': "\<forall>k. likes_of q k \<le> likes_of p k + res cb + res ca"
        using b by (simp add: add.commute add.left_commute)
      from live_step [OF assms(1) lb b' r1(1)] live_grows [OF la step_grows, of B cb]
      show ?thesis
        by (auto simp add: J_def cs i1 add.commute add.left_commute)
    qed
  qed
  then show ?thesis
    by (auto simp add: J_def live_def)
qed

subsection \<open>Two calls for different symbols\<close>

lemma step_other:
  "k \<noteq> c_symbol c \<Longrightarrow> stock_likes (snd (step B c q)) k = stock_likes q k"
  by (cases "c_pc c")
    (auto simp add: step_def insert_row_def select_likes_ips_def update_like_def sent_def
      Let_def split: option.splits)

lemma own_other: "own p0 ip f s c q \<Longrightarrow> stock_likes q' s = stock_likes q s \<Longrightarrow> own p0 ip f s c q'"
  by (cases "c_pc c") (simp_all add: own_def)

lemma own_step:
  assumes "quiet B" and "text_ok s"
    and "f \<longrightarrow> text_ok ip \<and> (ip \<in> set (ips_of p0 s) \<or> likes_of p0 s < int4_max)"
    and "own p0 ip f s c q"
  shows "own p0 ip f s (fst (step B c q)) (snd (step B c q))"
proof (cases "c_pc c")
  case AtInsert
  with assms show ?thesis
    by (auto simp add: step_def own_def liked_def insert_row_def quiet_refused sent_def
        likes_of_def ips_of_def split: option.splits)
next
  case AtSelect
  with assms show ?thesis
    by (auto simp add: step_def own_def liked_def select_likes_ips_def quiet_refused sent_def
        Let_def split: option.splits)
next
  case AtUpdate
  with assms show ?thesis
    by (auto simp add: step_def own_def liked_def update_like_def quiet_refused sent_def)
qed (use assms in \<open>simp_all add: step_def own_def\<close>)

lemma promise_all_two_distinct:
  assumes "quiet B" and "text_ok a" and "text_ok b" and "a \<noteq> b"
    and "f \<longrightarrow> text_ok ip \<and> (ip \<in> set (ips_of p a) \<or> likes_of p a < int4_max) \<and>
           (ip \<in> set (ips_of p b) \<or> likes_of p b < int4_max)"
  shows "fst (promise_all B sched [start a ip f, start b ip f] p) =
           [resolve (start a ip f), resolve (start b ip f)]"
    and "stock_likes (snd (promise_all B sched [start a ip f, start b ip f] p)) =
           (stock_likes p)(a \<mapsto> liked p a ip f, b \<mapsto> liked p b ip f)"
proof -
  define J where "J = (\<lambda>cs q. \<exists>ca cb. cs = [ca, cb] \<and> own p ip f a ca q \<and> own p ip f b cb q \<and>
      (\<forall>k. k \<noteq> a \<and> k \<noteq> b \<longrightarrow> stock_likes q k = stock_likes p k))"
  have fa: "f \<longrightarrow> text_ok ip \<and> (ip \<in> set (ips_of p a) \<or> likes_of p a < int4_max)"
    and fb: "f \<longrightarrow> text_ok ip \<and> (ip \<in> set (ips_of p b) \<or> likes_of p b < int4_max)"
    using assms(5) by simp_all
  have J: "J (fst (promise_all B sched [start a ip f, start b ip f] p))
      (snd (promise_all B sched [start a ip f, start b ip f] p))"
  proof (rule promise_all_inv)
    show "J [start a ip f, start b ip f] p"
      by (simp add: J_def own_def start_def)
  next
    fix cs q i
    assume j: "J cs q" and i: "i < length cs"
    then obtain ca cb where cs: "cs = [ca, cb]" and oa: "own p ip f a ca q"
      and ob: "own p ip f b cb q"
      and rest: "\<forall>k. k \<noteq> a \<and> k \<noteq> b \<longrightarrow> stock_likes q k = stock_likes p k"
      by (auto simp add: J_def)
    have sa: "c_symbol ca = a" and sb: "c_symbol cb = b"
      using oa ob by (simp_all add: own_def)
    from i cs have "i = 0 \<or> i = 1"
      by auto
    then show "J (cs[i := fst (step B (cs ! i) q)]) (snd (step B (cs ! i) q))"
    proof
      assume i0: "i = 0"
      have "own p ip f b cb (snd (step B ca q))"
        using own_other [OF ob] step_other [of b ca B q] assms(4) sa by simp
      with own_step [OF assms(1,2) fa oa] rest step_other [of _ ca B q] sa
      show ?thesis
        by (auto simp add: J_def cs i0)
    next
      assume i1: "i = 1"
      have "own p ip f a ca (snd (step B cb q))"
        using own_other [OF oa] step_other [of a cb B q] assms(4) sb by simp
      with own_step [OF assms(1,3) fb ob] rest step_other [of _ cb B q] sb
      show ?thesis
        by (auto simp add: J_def cs i1)
    qed
  qed
  then obtain ca cb where cs: "fst (promise_all B sched [start a ip f, start b ip f] p) = [ca, cb]"
    and oa: "own p ip f a ca (snd (promise_all B sched [start a ip f, start b ip f] p))"
    and ob: "own p ip f b cb (snd (promise_all B sched [start a ip f, start b ip f] p))"
    and rest: "\<forall>k. k \<noteq> a \<and> k \<noteq> b \<longrightarrow>
        stock_likes (snd (promise_all B sched [start a ip f, start b ip f] p)) k = stock_likes p k"
    by (auto simp add: J_def)
  have nr: "\<not> rejected ca" "\<not> rejected cb"
    using oa ob by (auto simp add: own_def rejected_def split: pc.splits)
  then have "\<not> (\<exists>c \<in> set (fst (promise_all B sched [start a ip f, start b ip f] p)). rejected c)"
    by (simp add: cs)
  from promise_all_resolved [OF this]
  show r: "fst (promise_all B sched [start a ip f, start b ip f] p) =
           [resolve (start a ip f), resolve (start b ip f)]"
    by simp
  with cs have "ca = resolve (start a ip f)" "cb = resolve (start b ip f)"
    by simp_all
  with oa ob have
    "stock_likes (snd (promise_all B sched [start a ip f, start b ip f] p)) a = Some (liked p a ip f)"
    "stock_likes (snd (promise_all B sched [start a ip f, start b ip f] p)) b = Some (liked p b ip f)"
    by (simp_all add: own_def resolve_def start_def)
  with rest show "stock_likes (snd (promise_all B sched [start a ip f, start b ip f] p)) =
           (stock_likes p)(a \<mapsto> liked p a ip f, b \<mapsto> liked p b ip f)"
    by (intro ext) auto
qed

section \<open>The handlers\<close>

lemma request_shapes: "(\<exists>s. one_symbol req s) \<or> (\<exists>xs. two_symbols req xs) \<or> no_symbol req"
proof (cases "q_stock req")
  case None
  then show ?thesis by (simp add: no_symbol_def falsy_def)
next
  case (Some v)
  show ?thesis
  proof (cases v)
    case (QStr s)
    with Some show ?thesis
      by (cases "s = []") (simp_all add: no_symbol_def falsy_def one_symbol_def)
  next
    case (QArr xs)
    show ?thesis
    proof (cases "length xs = 1")
      case False
      with Some QArr show ?thesis by (simp add: two_symbols_def)
    next
      case True
      then obtain x where "xs = [x]"
        by (cases xs) auto
      with Some QArr show ?thesis
        by (cases x) (auto simp add: one_symbol_def no_symbol_def)
    qed
  next
    case QObj
    with Some show ?thesis by (simp add: no_symbol_def)
  qed
qed

lemma handler_none:
  assumes "no_symbol req"
  shows "snd (handler js B fetch sched req p) = p" and "snd (handler2 js B sched req p) = p"
    and "fst (handler js B fetch sched req p) = (if falsy (q_stock req) then BadRequest else ServerError)"
    and "fst (handler2 js B sched req p) = (if falsy (q_stock req) then BadRequest else ServerError)"
proof -
  consider "falsy (q_stock req)" | "q_stock req = Some QObj"
    | x where "q_stock req = Some (QArr [x])" "\<forall>s. x \<noteq> QStr s"
    using assms by (auto simp add: no_symbol_def)
  then have "handler js B fetch sched req p =
        (if falsy (q_stock req) then BadRequest else ServerError, p) \<and>
      handler2 js B sched req p = (if falsy (q_stock req) then BadRequest else ServerError, p)"
  proof cases
    case 1
    then show ?thesis by (simp add: handler_def handler2_def)
  next
    case 2
    then show ?thesis
      by (simp add: handler_def handler2_def falsy_def single_stock_def single_stock2_def)
  next
    case 3
    then show ?thesis
      by (cases x)
        (simp_all add: handler_def handler2_def falsy_def single_stock_def single_stock2_def)
  qed
  then show "snd (handler js B fetch sched req p) = p" and "snd (handler2 js B sched req p) = p"
    and "fst (handler js B fetch sched req p) = (if falsy (q_stock req) then BadRequest else ServerError)"
    and "fst (handler2 js B sched req p) = (if falsy (q_stock req) then BadRequest else ServerError)"
    by simp_all
qed

lemma handler_one:
  assumes "one_symbol req s"
  shows "handler js B fetch sched req p =
           single_stock js B fetch (getClientIP js req) (likeFlag_of js req) [QStr s] p"
    and "handler2 js B sched req p =
           single_stock2 js B (getClientIP js req) (likeFlag_of js req) [QStr s] p"
  using assms by (auto simp add: one_symbol_def handler_def handler2_def falsy_def)

lemma String_at_take2:
  "String_at (take 2 xs) 0 = String_at xs 0" "String_at (take 2 xs) (Suc 0) = String_at xs (Suc 0)"
  by (simp_all add: String_at_def)

lemma handler_two:
  assumes "two_symbols req xs"
  shows "handler js B fetch sched req p =
           two_stocks js B fetch sched (getClientIP js req) (likeFlag_of js req) xs p"
    and "handler2 js B sched req p =
           two_stocks2 js B sched (getClientIP js req) (likeFlag_of js req) (take 2 xs) p"
  using assms by (simp_all add: two_symbols_def handler_def handler2_def falsy_def min_def)

subsection \<open>One symbol\<close>

lemma liked_row: "stock_likes p s = Some r \<Longrightarrow> liked p s ip False = r"
  by (simp add: liked_def likes_of_def ips_of_def)

lemma likeStockIfNeeded_liked:
  assumes "quiet B" and "text_ok s"
    and "f \<longrightarrow> text_ok ip \<and> (ip \<in> set (ips_of p s) \<or> likes_of p s < int4_max)"
  shows "stock_likes (snd (likeStockIfNeeded B s ip f p)) = (stock_likes p)(s \<mapsto> liked p s ip f)"
  using likeStockIfNeeded_accepted(2) [OF assms]
  by (auto simp add: liked_def likes_of_def ips_of_def split: option.splits)

lemma getLikes2_after_row:
  "stock_likes p s \<noteq> None \<Longrightarrow> stock_likes (snd (getLikes2 B s p)) = stock_likes p"
  by (auto simp add: getLikes2_table insert_row_table)

lemma likeStockIfNeeded_row:
  "fst (likeStockIfNeeded B s ip f p) = Inr u \<Longrightarrow>
   stock_likes (snd (likeStockIfNeeded B s ip f p)) s \<noteq> None"
  by (auto simp add: likeStockIfNeeded_def insert_row_def select_likes_ips_def update_like_def
      sent_def Let_def split: option.splits if_splits)

text \<open>The table a one-symbol request leaves is the table its like leaves.\<close>

lemma single_stock_table:
  "stock_likes (snd (single_stock js B fetch ip f [QStr s] p)) =
     stock_likes (snd (likeStockIfNeeded B (toUpperCase js s) ip f p))"
  by (simp add: single_stock_def Let_def split_beta getLikes_table split: sum.splits prod.splits)

lemma single_stock2_table:
  "stock_likes (snd (single_stock2 js B ip f [QStr s] p)) =
     stock_likes (snd (likeStockIfNeeded B (toUpperCase js s) ip f p))"
proof (cases "fst (likeStockIfNeeded B (toUpperCase js s) ip f p)")
  case (Inl e)
  then show ?thesis
    by (simp add: single_stock2_def Let_def split_beta likeStockIfNeeded2_eq)
next
  case (Inr u)
  from likeStockIfNeeded_row [OF this]
  have "stock_likes (snd (getLikes2 B (toUpperCase js s)
        (snd (likeStockIfNeeded B (toUpperCase js s) ip f p)))) =
      stock_likes (snd (likeStockIfNeeded B (toUpperCase js s) ip f p))"
    by (rule getLikes2_after_row)
  with Inr show ?thesis
    by (simp add: single_stock2_def Let_def split_beta likeStockIfNeeded2_eq getStockPrice2_def
        split: sum.splits)
qed

lemma single_stock_accepted:
  assumes "quiet B" and "text_ok (toUpperCase js s)"
    and "f \<longrightarrow> text_ok ip \<and>
      (ip \<in> set (ips_of p (toUpperCase js s)) \<or> likes_of p (toUpperCase js s) < int4_max)"
  shows "fst (single_stock js B fetch ip f [QStr s] p) =
     (case getStockPrice js fetch (toUpperCase js s) of
        Inl e \<Rightarrow> ServerError
      | Inr q \<Rightarrow> StockData (fst q) (snd q)
          (likes_of (snd (likeStockIfNeeded B (toUpperCase js s) ip f p)) (toUpperCase js s)))"
    and "fst (single_stock2 js B ip f [QStr s] p) =
     StockData (toUpperCase js (toUpperCase js s)) 100
       (likes_of (snd (likeStockIfNeeded B (toUpperCase js s) ip f p)) (toUpperCase js s))"
proof -
  obtain p1 where p1: "likeStockIfNeeded B (toUpperCase js s) ip f p = (Inr (), p1)"
    using likeStockIfNeeded_accepted(1) [OF assms]
    by (cases "likeStockIfNeeded B (toUpperCase js s) ip f p") auto
  have g: "fst (getLikes B (toUpperCase js s) p1) = Inr (likes_of p1 (toUpperCase js s))"
    using assms(1,2) by (simp add: getLikes_fst quiet_refused)
  have g2: "fst (getLikes2 B (toUpperCase js s) p1) = Inr (likes_of p1 (toUpperCase js s))"
    using assms(1,2) by (rule getLikes2_accepted)
  show "fst (single_stock js B fetch ip f [QStr s] p) =
     (case getStockPrice js fetch (toUpperCase js s) of
        Inl e \<Rightarrow> ServerError
      | Inr q \<Rightarrow> StockData (fst q) (snd q)
          (likes_of (snd (likeStockIfNeeded B (toUpperCase js s) ip f p)) (toUpperCase js s)))"
    using g by (simp add: single_stock_def Let_def p1 split_beta split: sum.splits)
  show "fst (single_stock2 js B ip f [QStr s] p) =
     StockData (toUpperCase js (toUpperCase js s)) 100
       (likes_of (snd (likeStockIfNeeded B (toUpperCase js s) ip f p)) (toUpperCase js s))"
    using g2
    by (simp add: single_stock2_def Let_def p1 split_beta likeStockIfNeeded2_eq
        getStockPrice2_def split: sum.splits)
qed

lemma like_False_unliked: "unliked p (snd (likeStockIfNeeded B s ip False p))"
  using unliked_insert_row [of p B s]
  by (simp add: likeStockIfNeeded_def split_beta split: sum.splits)

subsection \<open>Two symbols\<close>

text \<open>The table a two-symbol request leaves is the table its two likes leave.\<close>

lemma two_stocks_table:
  "stock_likes (snd (two_stocks js B fetch sched ip f stocks p)) =
     stock_likes (snd (promise_all B sched
       [start (toUpperCase js (String_at stocks 0)) ip f,
        start (toUpperCase js (String_at stocks 1)) ip f] p))"
  by (simp add: two_stocks_def Let_def split_beta getLikes_table
      split: sum.splits prod.splits)

lemma two_stocks2_table:
  "stock_likes (snd (two_stocks2 js B sched ip f stocks p)) =
     stock_likes (snd (promise_all B sched
       [start (toUpperCase js (String_at stocks 0)) ip f,
        start (toUpperCase js (String_at stocks 1)) ip f] p))"
proof -
  define a where "a = toUpperCase js (String_at stocks 0)"
  define b where "b = toUpperCase js (String_at stocks 1)"
  define cs where "cs = fst (promise_all B sched [start a ip f, start b ip f] p)"
  define p1 where "p1 = snd (promise_all B sched [start a ip f, start b ip f] p)"
  show ?thesis
  proof (cases "\<exists>c \<in> set cs. rejected c")
    case True
    then show ?thesis
      unfolding cs_def a_def b_def
      by (simp add: two_stocks2_def Let_def split_beta)
  next
    case False
    then have rows: "stock_likes p1 a \<noteq> None" "stock_likes p1 b \<noteq> None"
      unfolding cs_def p1_def using promise_all_two(2,3) [of B sched a ip f b p] by simp_all
    have t2: "stock_likes (snd (getLikes2 B a p1)) = stock_likes p1"
      using rows(1) by (rule getLikes2_after_row)
    then have "stock_likes (snd (getLikes2 B b (snd (getLikes2 B a p1)))) = stock_likes p1"
      using rows(2) getLikes2_after_row [of "snd (getLikes2 B a p1)" b B] by simp
    with False show ?thesis
      unfolding cs_def p1_def a_def b_def
      by (simp add: two_stocks2_def Let_def split_beta split: sum.splits prod.splits)
  qed
qed

lemma getLikes_value: "fst (getLikes B s p) = Inr n \<Longrightarrow> n = likes_of p s"
  by (simp add: getLikes_fst split: if_splits)

text \<open>Whatever is refused, the answer is 500 or the pair of the stored counts.\<close>

lemma two_stocks_response:
  "fst (two_stocks js B fetch sched ip f stocks p) = ServerError \<or>
   (\<exists>a b. getStockPrice js fetch (toUpperCase js (String_at stocks 0)) = Inr a \<and>
          getStockPrice js fetch (toUpperCase js (String_at stocks 1)) = Inr b \<and>
          fst (two_stocks js B fetch sched ip f stocks p) =
            StockPair
              (fst a, snd a,
               likes_of (snd (two_stocks js B fetch sched ip f stocks p))
                 (toUpperCase js (String_at stocks 0)) -
               likes_of (snd (two_stocks js B fetch sched ip f stocks p))
                 (toUpperCase js (String_at stocks 1)))
              (fst b, snd b,
               likes_of (snd (two_stocks js B fetch sched ip f stocks p))
                 (toUpperCase js (String_at stocks 1)) -
               likes_of (snd (two_stocks js B fetch sched ip f stocks p))
                 (toUpperCase js (String_at stocks 0))))"
proof -
  define a where "a = toUpperCase js (String_at stocks 0)"
  define b where "b = toUpperCase js (String_at stocks 1)"
  define p1 where "p1 = snd (promise_all B sched [start a ip f, start b ip f] p)"
  define p2 where "p2 = snd (getLikes B a p1)"
  have l: "likes_of (snd (two_stocks js B fetch sched ip f stocks p)) = likes_of p1"
    unfolding p1_def a_def b_def by (rule likes_of_cong) (rule two_stocks_table)
  have l2: "likes_of p2 = likes_of p1"
    unfolding p2_def by (rule likes_of_cong) (rule getLikes_table)
  have va: "\<And>n. fst (getLikes B a p1) = Inr n \<Longrightarrow> n = likes_of p1 a"
    by (rule getLikes_value)
  have vb: "\<And>n. fst (getLikes B b p2) = Inr n \<Longrightarrow> n = likes_of p1 b"
    using getLikes_value [of B b p2] by (simp add: l2)
  show ?thesis
    unfolding l
    unfolding a_def [symmetric] b_def [symmetric]
    using va vb
    by (auto simp add: two_stocks_def Let_def split_beta a_def [symmetric] b_def [symmetric]
        p1_def [symmetric] p2_def [symmetric] simp del: One_nat_def
        split: sum.splits prod.splits)
qed

lemma two_stocks2_response:
  "fst (two_stocks2 js B sched ip f stocks p) = ServerError \<or>
   fst (two_stocks2 js B sched ip f stocks p) =
     StockPair
       (toUpperCase js (toUpperCase js (String_at stocks 0)), 100,
        likes_of (snd (two_stocks2 js B sched ip f stocks p))
          (toUpperCase js (String_at stocks 0)) -
        likes_of (snd (two_stocks2 js B sched ip f stocks p))
          (toUpperCase js (String_at stocks 1)))
       (toUpperCase js (toUpperCase js (String_at stocks 1)), 100,
        likes_of (snd (two_stocks2 js B sched ip f stocks p))
          (toUpperCase js (String_at stocks 1)) -
        likes_of (snd (two_stocks2 js B sched ip f stocks p))
          (toUpperCase js (String_at stocks 0)))"
proof -
  define a where "a = toUpperCase js (String_at stocks 0)"
  define b where "b = toUpperCase js (String_at stocks 1)"
  define p1 where "p1 = snd (promise_all B sched [start a ip f, start b ip f] p)"
  define p2 where "p2 = snd (getLikes2 B a p1)"
  have l: "likes_of (snd (two_stocks2 js B sched ip f stocks p)) = likes_of p1"
    unfolding p1_def a_def b_def by (rule likes_of_cong) (rule two_stocks2_table)
  have l2: "likes_of p2 = likes_of p1"
    unfolding p2_def
    using likes_of_cong [OF getLikes2_table, of B a p1] by (simp add: likes_of_insert_row)
  have va: "\<And>n. fst (getLikes2 B a p1) = Inr n \<Longrightarrow> n = likes_of p1 a"
    by (rule getLikes2_value)
  have vb: "\<And>n. fst (getLikes2 B b p2) = Inr n \<Longrightarrow> n = likes_of p1 b"
    using getLikes2_value [of B b p2] by (simp add: l2)
  show ?thesis
    unfolding l
    unfolding a_def [symmetric] b_def [symmetric]
    using va vb
    by (auto simp add: two_stocks2_def Let_def split_beta a_def [symmetric] b_def [symmetric]
        p1_def [symmetric] p2_def [symmetric] getStockPrice2_def simp del: One_nat_def
        split: sum.splits prod.splits)
qed

text \<open>When nothing is refused, only a failed quote gives 500.\<close>

lemma two_stocks_accepted:
  assumes "quiet B"
    and "text_ok (toUpperCase js (String_at stocks 0))"
    and "text_ok (toUpperCase js (String_at stocks 1))"
    and "f \<longrightarrow> text_ok ip \<and>
      likes_of p (toUpperCase js (String_at stocks 0)) + 1 < int4_max \<and>
      likes_of p (toUpperCase js (String_at stocks 1)) + 1 < int4_max"
  shows "(fst (two_stocks js B fetch sched ip f stocks p) = ServerError) =
           (getStockPrice js fetch (toUpperCase js (String_at stocks 0)) = Inl FetchError \<or>
            getStockPrice js fetch (toUpperCase js (String_at stocks 1)) = Inl FetchError)"
    and "fst (two_stocks2 js B sched ip f stocks p) \<noteq> ServerError"
proof -
  define a where "a = toUpperCase js (String_at stocks 0)"
  define b where "b = toUpperCase js (String_at stocks 1)"
  define p1 where "p1 = snd (promise_all B sched [start a ip f, start b ip f] p)"
  have nr: "\<not> (\<exists>c \<in> set (fst (promise_all B sched [start a ip f, start b ip f] p)). rejected c)"
    using assms unfolding a_def b_def by (rule promise_all_two_accepted)
  have g: "\<And>s q. text_ok s \<Longrightarrow> fst (getLikes B s q) = Inr (likes_of q s)"
    using assms(1) by (simp add: getLikes_fst quiet_refused)
  have g2: "\<And>s q. text_ok s \<Longrightarrow> fst (getLikes2 B s q) = Inr (likes_of q s)"
    using assms(1) by (rule getLikes2_accepted)
  have fe: "\<And>s e. getStockPrice js fetch s = Inl e \<Longrightarrow> e = FetchError"
    by (auto simp add: getStockPrice_def split: option.splits)
  show "(fst (two_stocks js B fetch sched ip f stocks p) = ServerError) =
           (getStockPrice js fetch (toUpperCase js (String_at stocks 0)) = Inl FetchError \<or>
            getStockPrice js fetch (toUpperCase js (String_at stocks 1)) = Inl FetchError)"
    using nr g [of a] g [of b] assms(2,3) fe
    unfolding a_def [symmetric] b_def [symmetric]
    by (auto simp add: two_stocks_def Let_def split_beta a_def [symmetric] b_def [symmetric]
        simp del: One_nat_def split: sum.splits prod.splits)
  show "fst (two_stocks2 js B sched ip f stocks p) \<noteq> ServerError"
    using nr g2 [of a] g2 [of b] assms(2,3)
    by (auto simp add: two_stocks2_def Let_def split_beta a_def [symmetric] b_def [symmetric]
        simp del: One_nat_def split: sum.splits prod.splits)
qed

lemma String_at_take2_one: "String_at (take 2 xs) 1 = String_at xs 1"
  by (simp add: String_at_def)

text \<open>
  C7. For a request with an array of symbols that does not have exactly one
  element (the two-symbol form), and for every interleaving of the two
  \<open>likeStockIfNeeded\<close> calls: the answer is either 500 or the pair whose first
  \<open>rel_likes\<close> is \<open>likes(A) - likes(B)\<close> and whose second is \<open>likes(B) - likes(A)\<close>,
  for the counts stored when the handler returns; the first is the negation of
  the second. When no statement is refused (symbols and IP free of NUL, room
  in the INTEGER column for the likes, no failure of the backend) the answer
  of \<open>server.js\<close> is 500 only when a quote fails, and the second file always
  answers the pair.
\<close>

theorem rel_likes_negated:
  assumes "two_symbols req xs"
  shows "(let symA = toUpperCase js (String_at xs 0);
              symB = toUpperCase js (String_at xs 1);
              likesA = likes_of (snd (handler js B fetch sched req p)) symA;
              likesB = likes_of (snd (handler js B fetch sched req p)) symB in
          (fst (handler js B fetch sched req p) = ServerError \<or>
           (\<exists>a b. getStockPrice js fetch symA = Inr a \<and> getStockPrice js fetch symB = Inr b \<and>
              fst (handler js B fetch sched req p) =
                StockPair (fst a, snd a, likesA - likesB) (fst b, snd b, likesB - likesA))) \<and>
          (quiet B \<and> text_ok symA \<and> text_ok symB \<and>
           (likeFlag_of js req \<longrightarrow>
              text_ok (getClientIP js req) \<and>
              likes_of p symA + 1 < int4_max \<and> likes_of p symB + 1 < int4_max) \<longrightarrow>
             (fst (handler js B fetch sched req p) = ServerError) =
               (getStockPrice js fetch symA = Inl FetchError \<or>
                getStockPrice js fetch symB = Inl FetchError)) \<and>
          likesA - likesB = - (likesB - likesA)) \<and>
         (let symA = toUpperCase js (String_at xs 0);
              symB = toUpperCase js (String_at xs 1);
              likesA = likes_of (snd (handler2 js B sched req p)) symA;
              likesB = likes_of (snd (handler2 js B sched req p)) symB in
          (fst (handler2 js B sched req p) = ServerError \<or>
           fst (handler2 js B sched req p) =
             StockPair (toUpperCase js symA, 100, likesA - likesB)
               (toUpperCase js symB, 100, likesB - likesA)) \<and>
          (quiet B \<and> text_ok symA \<and> text_ok symB \<and>
           (likeFlag_of js req \<longrightarrow>
              text_ok (getClientIP js req) \<and>
              likes_of p symA + 1 < int4_max \<and> likes_of p symB + 1 < int4_max) \<longrightarrow>
             fst (handler2 js B sched req p) \<noteq> ServerError) \<and>
          likesA - likesB = - (likesB - likesA))"
proof -
  have 1: "handler js B fetch sched req p =
      two_stocks js B fetch sched (getClientIP js req) (likeFlag_of js req) xs p"
    by (rule handler_two [OF assms])
  have 2: "handler2 js B sched req p =
      two_stocks2 js B sched (getClientIP js req) (likeFlag_of js req) (take 2 xs) p"
    by (rule handler_two [OF assms])
  show ?thesis
    unfolding 1 2 Let_def
    using two_stocks_response [of js B fetch sched "getClientIP js req" "likeFlag_of js req" xs p]
      two_stocks2_response [of js B sched "getClientIP js req" "likeFlag_of js req" "take 2 xs" p]
      two_stocks_accepted(1) [of B js xs "likeFlag_of js req" "getClientIP js req" p fetch sched]
      two_stocks_accepted(2) [of B js "take 2 xs" "likeFlag_of js req" "getClientIP js req" p sched]
    by (simp add: String_at_take2 String_at_take2_one del: One_nat_def)
qed

theorem rel_likes_negated_witness:
  "two_symbols \<lparr>q_stock = Some (QArr [QStr ''goog'', QStr ''msft'']), q_like = None,
      x_forwarded_for = None, remoteAddress = Some ''9.9.9.9'', req_ip = None\<rparr>
     [QStr ''goog'', QStr ''msft''] \<and>
   quiet no_failures \<and> text_ok ''GOOG'' \<and> text_ok ''MSFT'' \<and>
   fst (handler2 ascii no_failures []
      \<lparr>q_stock = Some (QArr [QStr ''goog'', QStr ''msft'']), q_like = None,
        x_forwarded_for = None, remoteAddress = Some ''9.9.9.9'', req_ip = None\<rparr>
      \<lparr>stock_likes = [''GOOG'' \<mapsto> \<lparr>likes = 5, ips = [''1'', ''2'', ''3'', ''4'', ''5'']\<rparr>,
                       ''MSFT'' \<mapsto> \<lparr>likes = 2, ips = [''1'', ''2'']\<rparr>], queries = 0\<rparr>) =
     StockPair (''GOOG'', 100, 3) (''MSFT'', 100, - 3)"
proof -
  define r where "r = \<lparr>q_stock = Some (QArr [QStr ''goog'', QStr ''msft'']), q_like = None,
      x_forwarded_for = None, remoteAddress = Some ''9.9.9.9'', req_ip = None\<rparr>"
  define p where "p = \<lparr>stock_likes = [''GOOG'' \<mapsto> \<lparr>likes = 5, ips = [''1'', ''2'', ''3'', ''4'', ''5'']\<rparr>,
                       ''MSFT'' \<mapsto> \<lparr>likes = 2, ips = [''1'', ''2'']\<rparr>], queries = 0\<rparr>"
  have h: "two_symbols r [QStr ''goog'', QStr ''msft'']"
    by (simp add: r_def two_symbols_def)
  have a: "toUpperCase ascii (String_at [QStr ''goog'', QStr ''msft''] 0) = ''GOOG''"
    and b: "toUpperCase ascii (String_at [QStr ''goog'', QStr ''msft''] 1) = ''MSFT''"
    and a2: "toUpperCase ascii ''GOOG'' = ''GOOG''"
    and b2: "toUpperCase ascii ''MSFT'' = ''MSFT''"
    by (simp_all add: String_at_def String_opt_def ascii_def upper_char_def)
  have t: "text_ok ''GOOG''" "text_ok ''MSFT''"
    by (simp_all add: text_ok_def)
  have nl: "\<not> likeFlag_of ascii r"
    by (simp add: r_def likeFlag_of_def String_opt_def ascii_def lower_char_def)
  have la: "likes_of (snd (handler2 ascii no_failures [] r p)) ''GOOG'' = 5"
    and lb: "likes_of (snd (handler2 ascii no_failures [] r p)) ''MSFT'' = 2"
    by (simp_all add: r_def p_def handler_eval_defs eval_defs)
  from rel_likes_negated [OF h, of ascii no_failures "\<lambda>s. None :: nat quote option" "[]" p,
      THEN conjunct2]
  have "fst (handler2 ascii no_failures [] r p) = StockPair (''GOOG'', 100, 3) (''MSFT'', 100, - 3)"
    unfolding a b Let_def la lb a2 b2 using quiet_no_failures t nl by auto
  with h t quiet_no_failures show ?thesis
    unfolding r_def p_def by simp
qed

text \<open>
  C8. When \<open>stock\<close> is missing (or the empty string, which \<open>!stock\<close> also
  rejects), both handlers answer 400 and return the pool they were given: no
  row is created or changed, and the statement counter has not moved, so no
  statement was sent.
\<close>

theorem missing_stock_rejected:
  assumes "falsy (q_stock req)"
  shows "handler js B fetch sched req p = (BadRequest, p) \<and>
         handler2 js B sched req p = (BadRequest, p)"
  using assms by (simp add: handler_def handler2_def)

theorem missing_stock_rejected_witness:
  "falsy (q_stock \<lparr>q_stock = None, q_like = Some (QStr ''true''), x_forwarded_for = None,
      remoteAddress = Some ''1.2.3.4'', req_ip = None\<rparr>) \<and>
   handler2 ascii no_failures []
     \<lparr>q_stock = None, q_like = Some (QStr ''true''), x_forwarded_for = None,
      remoteAddress = Some ''1.2.3.4'', req_ip = None\<rparr> empty_pool = (BadRequest, empty_pool)"
proof -
  have h: "falsy (q_stock \<lparr>q_stock = None, q_like = Some (QStr ''true''), x_forwarded_for = None,
      remoteAddress = Some ''1.2.3.4'', req_ip = None\<rparr>)"
    by (simp add: falsy_def)
  from missing_stock_rejected [OF h] h show ?thesis
    by blast
qed

lemma liked_True:
  "ip \<in> set (ips (liked p s ip True)) \<and>
   likes (liked p s ip True) = (if ip \<in> set (ips_of p s) then likes_of p s else likes_of p s + 1)"
  by (simp add: liked_def)

lemma one_symbol_pool:
  assumes "one_symbol req s"
  shows "stock_likes (snd (handler js B fetch sched req p)) =
           stock_likes (snd (likeStockIfNeeded B (toUpperCase js s) (getClientIP js req)
             (likeFlag_of js req) p))"
    and "stock_likes (snd (handler2 js B sched req p)) =
           stock_likes (snd (likeStockIfNeeded B (toUpperCase js s) (getClientIP js req)
             (likeFlag_of js req) p))"
  by (simp_all add: handler_one [OF assms] single_stock_table single_stock2_table)

lemma one_symbol_accepted:
  assumes "one_symbol req s" and "quiet B" and "text_ok (toUpperCase js s)"
    and "likeFlag_of js req \<longrightarrow> text_ok (getClientIP js req) \<and>
      (getClientIP js req \<in> set (ips_of p (toUpperCase js s)) \<or>
       likes_of p (toUpperCase js s) < int4_max)"
  shows "stock_likes (snd (handler js B fetch sched req p)) =
           (stock_likes p)(toUpperCase js s \<mapsto>
              liked p (toUpperCase js s) (getClientIP js req) (likeFlag_of js req))"
    and "stock_likes (snd (handler2 js B sched req p)) =
           (stock_likes p)(toUpperCase js s \<mapsto>
              liked p (toUpperCase js s) (getClientIP js req) (likeFlag_of js req))"
    and "fst (handler js B fetch sched req p) =
           (case getStockPrice js fetch (toUpperCase js s) of
              Inl e \<Rightarrow> ServerError
            | Inr q \<Rightarrow> StockData (fst q) (snd q)
                (likes_of (snd (handler js B fetch sched req p)) (toUpperCase js s)))"
    and "fst (handler2 js B sched req p) =
           StockData (toUpperCase js (toUpperCase js s)) 100
             (likes_of (snd (handler2 js B sched req p)) (toUpperCase js s))"
proof -
  show t: "stock_likes (snd (handler js B fetch sched req p)) =
           (stock_likes p)(toUpperCase js s \<mapsto>
              liked p (toUpperCase js s) (getClientIP js req) (likeFlag_of js req))"
    using likeStockIfNeeded_liked [OF assms(2-4)]
    by (simp add: one_symbol_pool [OF assms(1)])
  show t2: "stock_likes (snd (handler2 js B sched req p)) =
           (stock_likes p)(toUpperCase js s \<mapsto>
              liked p (toUpperCase js s) (getClientIP js req) (likeFlag_of js req))"
    using likeStockIfNeeded_liked [OF assms(2-4)]
    by (simp add: one_symbol_pool [OF assms(1)])
  have l: "likes_of (snd (handler js B fetch sched req p)) =
      likes_of (snd (likeStockIfNeeded B (toUpperCase js s) (getClientIP js req)
        (likeFlag_of js req) p))"
    by (rule likes_of_cong) (rule one_symbol_pool [OF assms(1)])
  have l2: "likes_of (snd (handler2 js B sched req p)) =
      likes_of (snd (likeStockIfNeeded B (toUpperCase js s) (getClientIP js req)
        (likeFlag_of js req) p))"
    by (rule likes_of_cong) (rule one_symbol_pool [OF assms(1)])
  show "fst (handler js B fetch sched req p) =
           (case getStockPrice js fetch (toUpperCase js s) of
              Inl e \<Rightarrow> ServerError
            | Inr q \<Rightarrow> StockData (fst q) (snd q)
                (likes_of (snd (handler js B fetch sched req p)) (toUpperCase js s)))"
    unfolding l
    by (simp add: handler_one [OF assms(1)] single_stock_accepted(1) [OF assms(2-4)])
  show "fst (handler2 js B sched req p) =
           StockData (toUpperCase js (toUpperCase js s)) 100
             (likes_of (snd (handler2 js B sched req p)) (toUpperCase js s))"
    unfolding l2
    by (simp add: handler_one [OF assms(1)] single_stock_accepted(2) [OF assms(2-4)])
qed

text \<open>
  C9. Let two symbols have the same upper-case form \<open>U\<close>, free of NUL, and let
  no statement be refused. A one-symbol request (a string or an array of one
  string) with \<open>like=true\<close> for the first records the client IP in the row keyed
  by \<open>U\<close>, counts it once, and touches no row under any other key; a following
  one-symbol read for the second symbol reports the count of that same row.
  Both files behave so (\<open>server.js\<close> answers 500 instead when the quote fails,
  the like being recorded all the same).
\<close>

theorem folded_symbols_share_record:
  assumes "toUpperCase js s1 = toUpperCase js s2"
    and "one_symbol req1 s1" and "likeFlag_of js req1"
    and "one_symbol req2 s2" and "\<not> likeFlag_of js req2"
    and "quiet B" and "text_ok (toUpperCase js s1)" and "text_ok (getClientIP js req1)"
    and "getClientIP js req1 \<in> set (ips_of p (toUpperCase js s1)) \<or>
         likes_of p (toUpperCase js s1) < int4_max"
  shows "(let U = toUpperCase js s1; ip = getClientIP js req1;
              p1 = snd (handler js B fetch sch1 req1 p) in
          ip \<in> set (ips_of p1 U) \<and>
          likes_of p1 U = (if ip \<in> set (ips_of p U) then likes_of p U else likes_of p U + 1) \<and>
          (\<forall>k. k \<noteq> U \<longrightarrow> stock_likes p1 k = stock_likes p k) \<and>
          fst (handler js B fetch sch2 req2 p1) =
            (case getStockPrice js fetch U of
               Inl e \<Rightarrow> ServerError
             | Inr q \<Rightarrow> StockData (fst q) (snd q) (likes_of p1 U))) \<and>
         (let U = toUpperCase js s1; ip = getClientIP js req1;
              p1 = snd (handler2 js B sch1 req1 p) in
          ip \<in> set (ips_of p1 U) \<and>
          likes_of p1 U = (if ip \<in> set (ips_of p U) then likes_of p U else likes_of p U + 1) \<and>
          (\<forall>k. k \<noteq> U \<longrightarrow> stock_likes p1 k = stock_likes p k) \<and>
          fst (handler2 js B sch2 req2 p1) = StockData (toUpperCase js U) 100 (likes_of p1 U))"
proof -
  define U where "U = toUpperCase js s1"
  define ip where "ip = getClientIP js req1"
  define p1 where "p1 = snd (handler js B fetch sch1 req1 p)"
  define p1' where "p1' = snd (handler2 js B sch1 req1 p)"
  have U2: "toUpperCase js s2 = U"
    using assms(1) by (simp add: U_def)
  have acc1: "likeFlag_of js req1 \<longrightarrow> text_ok (getClientIP js req1) \<and>
      (getClientIP js req1 \<in> set (ips_of p (toUpperCase js s1)) \<or>
       likes_of p (toUpperCase js s1) < int4_max)"
    using assms(8,9) by simp
  have t1: "stock_likes p1 = (stock_likes p)(U \<mapsto> liked p U ip True)"
    unfolding p1_def U_def ip_def
    using one_symbol_accepted(1) [OF assms(2,6,7) acc1, of fetch sch1] assms(3) by simp
  have t1': "stock_likes p1' = (stock_likes p)(U \<mapsto> liked p U ip True)"
    unfolding p1'_def U_def ip_def
    using one_symbol_accepted(2) [OF assms(2,6,7) acc1, of sch1] assms(3) by simp
  have first: "\<And>q. stock_likes q = (stock_likes p)(U \<mapsto> liked p U ip True) \<Longrightarrow>
      ip \<in> set (ips_of q U) \<and>
      likes_of q U = (if ip \<in> set (ips_of p U) then likes_of p U else likes_of p U + 1) \<and>
      (\<forall>k. k \<noteq> U \<longrightarrow> stock_likes q k = stock_likes p k)"
    using liked_True [of ip p U] by (simp add: ips_of_def likes_of_def)
  have tU: "text_ok (toUpperCase js s2)"
    using assms(7) by (simp add: U2 U_def)
  have acc2: "\<And>q. likeFlag_of js req2 \<longrightarrow> text_ok (getClientIP js req2) \<and>
      (getClientIP js req2 \<in> set (ips_of q (toUpperCase js s2)) \<or>
       likes_of q (toUpperCase js s2) < int4_max)"
    using assms(5) by simp
  have read: "\<And>q. likes_of (snd (likeStockIfNeeded B U (getClientIP js req2) False q)) = likes_of q"
    using like_False_unliked unliked_same by blast
  have r: "likes_of (snd (handler js B fetch sch2 req2 p1)) = likes_of p1"
    using likes_of_cong [OF one_symbol_pool(1) [OF assms(4), of js B fetch sch2 p1]] assms(5)
    by (simp add: U2 read)
  have r': "likes_of (snd (handler2 js B sch2 req2 p1')) = likes_of p1'"
    using likes_of_cong [OF one_symbol_pool(2) [OF assms(4), of js B sch2 p1']] assms(5)
    by (simp add: U2 read)
  have a: "fst (handler js B fetch sch2 req2 p1) =
      (case getStockPrice js fetch U of
         Inl e \<Rightarrow> ServerError
       | Inr q \<Rightarrow> StockData (fst q) (snd q) (likes_of p1 U))"
    using one_symbol_accepted(3) [OF assms(4,6) tU acc2, of fetch sch2 p1]
    by (simp add: U2 r split: sum.splits)
  have a': "fst (handler2 js B sch2 req2 p1') = StockData (toUpperCase js U) 100 (likes_of p1' U)"
    using one_symbol_accepted(4) [OF assms(4,6) tU acc2, of sch2 p1']
    by (simp add: U2 r')
  from first [OF t1] first [OF t1'] a a'
  show ?thesis
    unfolding Let_def U_def [symmetric] ip_def [symmetric] p1_def [symmetric] p1'_def [symmetric]
    by blast
qed

theorem folded_symbols_share_record_witness:
  "toUpperCase ascii ''goog'' = toUpperCase ascii ''GOOG'' \<and>
   one_symbol \<lparr>q_stock = Some (QStr ''goog''), q_like = Some (QStr ''true''),
      x_forwarded_for = None, remoteAddress = Some ''1.2.3.4'', req_ip = None\<rparr> ''goog'' \<and>
   likeFlag_of ascii \<lparr>q_stock = Some (QStr ''goog''), q_like = Some (QStr ''true''),
      x_forwarded_for = None, remoteAddress = Some ''1.2.3.4'', req_ip = None\<rparr> \<and>
   one_symbol \<lparr>q_stock = Some (QArr [QStr ''GOOG'']), q_like = None,
      x_forwarded_for = None, remoteAddress = Some ''5.6.7.8'', req_ip = None\<rparr> ''GOOG'' \<and>
   \<not> likeFlag_of ascii \<lparr>q_stock = Some (QArr [QStr ''GOOG'']), q_like = None,
      x_forwarded_for = None, remoteAddress = Some ''5.6.7.8'', req_ip = None\<rparr> \<and>
   quiet no_failures \<and> text_ok ''GOOG'' \<and> text_ok ''1.2.3.4'' \<and>
   likes_of empty_pool ''GOOG'' < int4_max \<and>
   fst (handler2 ascii no_failures []
      \<lparr>q_stock = Some (QArr [QStr ''GOOG'']), q_like = None,
        x_forwarded_for = None, remoteAddress = Some ''5.6.7.8'', req_ip = None\<rparr>
      (snd (handler2 ascii no_failures []
         \<lparr>q_stock = Some (QStr ''goog''), q_like = Some (QStr ''true''),
           x_forwarded_for = None, remoteAddress = Some ''1.2.3.4'', req_ip = None\<rparr>
         empty_pool))) = StockData ''GOOG'' 100 1"
proof -
  define r1 where "r1 = \<lparr>q_stock = Some (QStr ''goog''), q_like = Some (QStr ''true''),
      x_forwarded_for = None, remoteAddress = Some ''1.2.3.4'', req_ip = None\<rparr>"
  define r2 where "r2 = \<lparr>q_stock = Some (QArr [QStr ''GOOG'']), q_like = None,
      x_forwarded_for = None, remoteAddress = Some ''5.6.7.8'', req_ip = None\<rparr>"
  have u: "toUpperCase ascii ''goog'' = ''GOOG''" "toUpperCase ascii ''GOOG'' = ''GOOG''"
    by (simp_all add: ascii_def upper_char_def)
  have h1: "toUpperCase ascii ''goog'' = toUpperCase ascii ''GOOG''"
    by (simp add: u)
  have h2: "one_symbol r1 ''goog''" and h4: "one_symbol r2 ''GOOG''"
    by (simp_all add: r1_def r2_def one_symbol_def)
  have h3: "likeFlag_of ascii r1" and h5: "\<not> likeFlag_of ascii r2"
    by (simp_all add: r1_def r2_def likeFlag_of_def String_opt_def ascii_def lower_char_def)
  have ip: "getClientIP ascii r1 = ''1.2.3.4''"
    by (simp add: r1_def getClientIP_def or_else_def)
  have t: "text_ok ''GOOG''" "text_ok ''1.2.3.4''"
    by (simp_all add: text_ok_def)
  have h7: "text_ok (toUpperCase ascii ''goog'')" and h8: "text_ok (getClientIP ascii r1)"
    by (simp_all add: u ip t)
  have e: "ips_of empty_pool ''GOOG'' = []" "likes_of empty_pool ''GOOG'' = 0"
    by (simp_all add: ips_of_def likes_of_def empty_pool_def)
  have room: "likes_of empty_pool ''GOOG'' < int4_max"
    by (simp add: e int4_max_def)
  then have h9: "getClientIP ascii r1 \<in> set (ips_of empty_pool (toUpperCase ascii ''goog'')) \<or>
      likes_of empty_pool (toUpperCase ascii ''goog'') < int4_max"
    by (simp add: u)
  from folded_symbols_share_record [OF h1 h2 h3 h4 h5 quiet_no_failures h7 h8 h9,
      of "\<lambda>s. None :: nat quote option" "[]" "[]", THEN conjunct2]
  have "fst (handler2 ascii no_failures [] r2 (snd (handler2 ascii no_failures [] r1 empty_pool)))
      = StockData ''GOOG'' 100 1"
    unfolding Let_def u ip by (simp add: e)
  with h1 h2 h3 h4 h5 t room quiet_no_failures show ?thesis
    unfolding r1_def r2_def by simp
qed

lemma handler_unliked:
  assumes "\<not> likeFlag_of js req"
  shows "unliked p (snd (handler js B fetch sched req p))"
    and "unliked p (snd (handler2 js B sched req p))"
proof -
  consider s where "one_symbol req s" | xs where "two_symbols req xs" | "no_symbol req"
    using request_shapes by blast
  then have "unliked p (snd (handler js B fetch sched req p)) \<and>
      unliked p (snd (handler2 js B sched req p))"
  proof cases
    case 1
    have t: "stock_likes (snd (handler js B fetch sched req p)) =
        stock_likes (snd (likeStockIfNeeded B (toUpperCase js s) (getClientIP js req) False p))"
      and t2: "stock_likes (snd (handler2 js B sched req p)) =
        stock_likes (snd (likeStockIfNeeded B (toUpperCase js s) (getClientIP js req) False p))"
      using one_symbol_pool [OF 1, of js B] assms by simp_all
    show ?thesis
      unfolding unliked_cong [OF t] unliked_cong [OF t2]
      by (simp add: like_False_unliked)
  next
    case 2
    have "unliked p (snd (promise_all B sched
        [start (toUpperCase js (String_at xs 0)) (getClientIP js req) False,
         start (toUpperCase js (String_at xs 1)) (getClientIP js req) False] p))"
      by (rule promise_all_unliked) (simp add: start_def)
    then have u: "unliked p (snd (two_stocks js B fetch sched (getClientIP js req) False xs p))"
      and u2: "unliked p (snd (two_stocks2 js B sched (getClientIP js req) False (take 2 xs) p))"
      unfolding unliked_cong [OF two_stocks_table] unliked_cong [OF two_stocks2_table]
        String_at_take2 String_at_take2_one
      by simp_all
    show ?thesis
      using assms u u2 by (simp add: handler_two [OF 2])
  next
    case 3
    then show ?thesis
      by (simp add: handler_none unliked_refl)
  qed
  then show "unliked p (snd (handler js B fetch sched req p))"
    and "unliked p (snd (handler2 js B sched req p))"
    by simp_all
qed

lemma two_symbols_distinct:
  assumes "two_symbols req xs" and "quiet B"
    and "text_ok (toUpperCase js (String_at xs 0))" and "text_ok (toUpperCase js (String_at xs 1))"
    and "toUpperCase js (String_at xs 0) \<noteq> toUpperCase js (String_at xs 1)"
    and "likeFlag_of js req \<longrightarrow> text_ok (getClientIP js req) \<and>
       (getClientIP js req \<in> set (ips_of p (toUpperCase js (String_at xs 0))) \<or>
        likes_of p (toUpperCase js (String_at xs 0)) < int4_max) \<and>
       (getClientIP js req \<in> set (ips_of p (toUpperCase js (String_at xs 1))) \<or>
        likes_of p (toUpperCase js (String_at xs 1)) < int4_max)"
  shows "stock_likes (snd (handler js B fetch sched req p)) =
      (stock_likes p)
        (toUpperCase js (String_at xs 0) \<mapsto>
           liked p (toUpperCase js (String_at xs 0)) (getClientIP js req) (likeFlag_of js req),
         toUpperCase js (String_at xs 1) \<mapsto>
           liked p (toUpperCase js (String_at xs 1)) (getClientIP js req) (likeFlag_of js req))"
    and "stock_likes (snd (handler2 js B sched req p)) =
      (stock_likes p)
        (toUpperCase js (String_at xs 0) \<mapsto>
           liked p (toUpperCase js (String_at xs 0)) (getClientIP js req) (likeFlag_of js req),
         toUpperCase js (String_at xs 1) \<mapsto>
           liked p (toUpperCase js (String_at xs 1)) (getClientIP js req) (likeFlag_of js req))"
  using promise_all_two_distinct(2) [OF assms(2-6), of sched]
  by (simp_all add: handler_two [OF assms(1)] two_stocks_table two_stocks2_table
      String_at_take2 String_at_take2_one del: One_nat_def)

lemma two_stocks_rejected:
  "\<exists>c \<in> set (fst (promise_all B sched
       [start (toUpperCase js (String_at stocks 0)) ip f,
        start (toUpperCase js (String_at stocks 1)) ip f] p)). rejected c \<Longrightarrow>
   fst (two_stocks js B fetch sched ip f stocks p) = ServerError"
  by (simp add: two_stocks_def Let_def split_beta del: One_nat_def)

lemma two_stocks2_rejected:
  "\<exists>c \<in> set (fst (promise_all B sched
       [start (toUpperCase js (String_at stocks 0)) ip f,
        start (toUpperCase js (String_at stocks 1)) ip f] p)). rejected c \<Longrightarrow>
   fst (two_stocks2 js B sched ip f stocks p) = ServerError"
  by (simp add: two_stocks2_def Let_def split_beta del: One_nat_def)

lemma two_symbols_listed:
  assumes "two_symbols req xs" and "likeFlag_of js req"
  shows "fst (handler js B fetch sched req p) \<noteq> ServerError \<longrightarrow>
      getClientIP js req \<in> set (ips_of (snd (handler js B fetch sched req p))
        (toUpperCase js (String_at xs 0))) \<and>
      getClientIP js req \<in> set (ips_of (snd (handler js B fetch sched req p))
        (toUpperCase js (String_at xs 1)))"
    and "fst (handler2 js B sched req p) \<noteq> ServerError \<longrightarrow>
      getClientIP js req \<in> set (ips_of (snd (handler2 js B sched req p))
        (toUpperCase js (String_at xs 0))) \<and>
      getClientIP js req \<in> set (ips_of (snd (handler2 js B sched req p))
        (toUpperCase js (String_at xs 1)))"
proof -
  define a where "a = toUpperCase js (String_at xs 0)"
  define b where "b = toUpperCase js (String_at xs 1)"
  define ip where "ip = getClientIP js req"
  define p1 where "p1 = snd (promise_all B sched [start a ip True, start b ip True] p)"
  have listed: "\<not> (\<exists>c \<in> set (fst (promise_all B sched [start a ip True, start b ip True] p)).
      rejected c) \<Longrightarrow> ip \<in> set (ips_of p1 a) \<and> ip \<in> set (ips_of p1 b)"
    unfolding p1_def using promise_all_two(4) [of B sched a ip True b p] by simp
  have i1: "ips_of (snd (handler js B fetch sched req p)) = ips_of p1"
    unfolding p1_def a_def b_def ip_def
    using ips_of_cong [OF two_stocks_table [of js B fetch sched "getClientIP js req" True xs p]]
      assms(2)
    by (simp add: handler_two [OF assms(1)])
  have i2: "ips_of (snd (handler2 js B sched req p)) = ips_of p1"
    unfolding p1_def a_def b_def ip_def
    using ips_of_cong [OF two_stocks2_table [of js B sched "getClientIP js req" True "take 2 xs" p]]
      assms(2)
    by (simp add: handler_two [OF assms(1)] String_at_take2 String_at_take2_one del: One_nat_def)
  have h1: "handler js B fetch sched req p = two_stocks js B fetch sched ip True xs p"
    using handler_two(1) [OF assms(1), of js B fetch sched p] assms(2) by (simp add: ip_def)
  have h2: "handler2 js B sched req p = two_stocks2 js B sched ip True (take 2 xs) p"
    using handler_two(2) [OF assms(1), of js B sched p] assms(2) by (simp add: ip_def)
  have r1: "\<exists>c \<in> set (fst (promise_all B sched [start a ip True, start b ip True] p)).
      rejected c \<Longrightarrow> fst (handler js B fetch sched req p) = ServerError"
    unfolding h1 a_def b_def by (rule two_stocks_rejected)
  have r2: "\<exists>c \<in> set (fst (promise_all B sched [start a ip True, start b ip True] p)).
      rejected c \<Longrightarrow> fst (handler2 js B sched req p) = ServerError"
    unfolding h2 a_def b_def
    using two_stocks2_rejected [of B sched js "take 2 xs" ip True p]
    unfolding String_at_take2 String_at_take2_one .
  show "fst (handler js B fetch sched req p) \<noteq> ServerError \<longrightarrow>
      getClientIP js req \<in> set (ips_of (snd (handler js B fetch sched req p))
        (toUpperCase js (String_at xs 0))) \<and>
      getClientIP js req \<in> set (ips_of (snd (handler js B fetch sched req p))
        (toUpperCase js (String_at xs 1)))"
    unfolding i1 a_def [symmetric] b_def [symmetric] ip_def [symmetric]
    using listed r1 by blast
  show "fst (handler2 js B sched req p) \<noteq> ServerError \<longrightarrow>
      getClientIP js req \<in> set (ips_of (snd (handler2 js B sched req p))
        (toUpperCase js (String_at xs 0))) \<and>
      getClientIP js req \<in> set (ips_of (snd (handler2 js B sched req p))
        (toUpperCase js (String_at xs 1)))"
    unfolding i2 a_def [symmetric] b_def [symmetric] ip_def [symmetric]
    using listed r2 by blast
qed

text \<open>
  C10. In both files, for every request: when \<open>String(like).toLowerCase()\<close> is
  not \<open>"true"\<close>, no count and no IP list changes, whatever the request and the
  backend. When it is \<open>"true"\<close> and no statement is refused, a one-symbol
  request (a string or an array of one string) leaves the row of its symbol
  with the IP listed and counted once if it was new, and a two-symbol request
  with different symbols does so for both rows, in every interleaving; every
  other row is untouched. A two-symbol request that is not answered with 500
  has the IP listed in both rows even when the symbols are the same. A request
  that names no symbol changes nothing. The one-symbol answer is the stock
  data, or 500 only when the quote fails, whatever \<open>like\<close> is.
\<close>

theorem like_applied_iff_true:
  "(toLowerCase js (String_opt (q_like req)) \<noteq> ''true'' \<longrightarrow>
      likes_of (snd (handler js B fetch sched req p)) = likes_of p \<and>
      ips_of (snd (handler js B fetch sched req p)) = ips_of p \<and>
      likes_of (snd (handler2 js B sched req p)) = likes_of p \<and>
      ips_of (snd (handler2 js B sched req p)) = ips_of p) \<and>
   (one_symbol req s \<and> quiet B \<and> text_ok (toUpperCase js s) \<and>
    (toLowerCase js (String_opt (q_like req)) = ''true'' \<longrightarrow>
       text_ok (getClientIP js req) \<and>
       (getClientIP js req \<in> set (ips_of p (toUpperCase js s)) \<or>
        likes_of p (toUpperCase js s) < int4_max)) \<longrightarrow>
      (let U = toUpperCase js s; ip = getClientIP js req;
           flag = (toLowerCase js (String_opt (q_like req)) = ''true'') in
         stock_likes (snd (handler js B fetch sched req p)) =
           (stock_likes p)(U \<mapsto> liked p U ip flag) \<and>
         stock_likes (snd (handler2 js B sched req p)) =
           (stock_likes p)(U \<mapsto> liked p U ip flag) \<and>
         fst (handler js B fetch sched req p) =
           (case getStockPrice js fetch U of
              Inl e \<Rightarrow> ServerError
            | Inr q \<Rightarrow> StockData (fst q) (snd q)
                (likes_of (snd (handler js B fetch sched req p)) U)) \<and>
         fst (handler2 js B sched req p) =
           StockData (toUpperCase js U) 100 (likes_of (snd (handler2 js B sched req p)) U))) \<and>
   (two_symbols req xs \<and> quiet B \<and>
    text_ok (toUpperCase js (String_at xs 0)) \<and> text_ok (toUpperCase js (String_at xs 1)) \<and>
    toUpperCase js (String_at xs 0) \<noteq> toUpperCase js (String_at xs 1) \<and>
    (toLowerCase js (String_opt (q_like req)) = ''true'' \<longrightarrow>
       text_ok (getClientIP js req) \<and>
       (getClientIP js req \<in> set (ips_of p (toUpperCase js (String_at xs 0))) \<or>
        likes_of p (toUpperCase js (String_at xs 0)) < int4_max) \<and>
       (getClientIP js req \<in> set (ips_of p (toUpperCase js (String_at xs 1))) \<or>
        likes_of p (toUpperCase js (String_at xs 1)) < int4_max)) \<longrightarrow>
      (let A = toUpperCase js (String_at xs 0); C = toUpperCase js (String_at xs 1);
           ip = getClientIP js req;
           flag = (toLowerCase js (String_opt (q_like req)) = ''true'') in
         stock_likes (snd (handler js B fetch sched req p)) =
           (stock_likes p)(A \<mapsto> liked p A ip flag, C \<mapsto> liked p C ip flag) \<and>
         stock_likes (snd (handler2 js B sched req p)) =
           (stock_likes p)(A \<mapsto> liked p A ip flag, C \<mapsto> liked p C ip flag))) \<and>
   (two_symbols req xs \<and> toLowerCase js (String_opt (q_like req)) = ''true'' \<longrightarrow>
      (let A = toUpperCase js (String_at xs 0); C = toUpperCase js (String_at xs 1);
           ip = getClientIP js req in
         (fst (handler js B fetch sched req p) \<noteq> ServerError \<longrightarrow>
            ip \<in> set (ips_of (snd (handler js B fetch sched req p)) A) \<and>
            ip \<in> set (ips_of (snd (handler js B fetch sched req p)) C)) \<and>
         (fst (handler2 js B sched req p) \<noteq> ServerError \<longrightarrow>
            ip \<in> set (ips_of (snd (handler2 js B sched req p)) A) \<and>
            ip \<in> set (ips_of (snd (handler2 js B sched req p)) C)))) \<and>
   (no_symbol req \<longrightarrow>
      snd (handler js B fetch sched req p) = p \<and> snd (handler2 js B sched req p) = p)"
proof (intro conjI impI)
  assume "toLowerCase js (String_opt (q_like req)) \<noteq> ''true''"
  then have nl: "\<not> likeFlag_of js req"
    by (simp add: likeFlag_of_def)
  from unliked_same [OF handler_unliked(1) [OF nl, of p B fetch sched]]
    unliked_same [OF handler_unliked(2) [OF nl, of p B sched]]
  show "likes_of (snd (handler js B fetch sched req p)) = likes_of p"
    and "ips_of (snd (handler js B fetch sched req p)) = ips_of p"
    and "likes_of (snd (handler2 js B sched req p)) = likes_of p"
    and "ips_of (snd (handler2 js B sched req p)) = ips_of p"
    by simp_all
next
  assume a: "one_symbol req s \<and> quiet B \<and> text_ok (toUpperCase js s) \<and>
    (toLowerCase js (String_opt (q_like req)) = ''true'' \<longrightarrow>
       text_ok (getClientIP js req) \<and>
       (getClientIP js req \<in> set (ips_of p (toUpperCase js s)) \<or>
        likes_of p (toUpperCase js s) < int4_max))"
  then have a1: "one_symbol req s" and a2: "quiet B" and a3: "text_ok (toUpperCase js s)"
    and a4: "likeFlag_of js req \<longrightarrow> text_ok (getClientIP js req) \<and>
      (getClientIP js req \<in> set (ips_of p (toUpperCase js s)) \<or>
       likes_of p (toUpperCase js s) < int4_max)"
    by (simp_all add: likeFlag_of_def)
  from one_symbol_accepted(1) [OF a1 a2 a3 a4, of fetch sched]
    one_symbol_accepted(2) [OF a1 a2 a3 a4, of sched]
    one_symbol_accepted(3) [OF a1 a2 a3 a4, of fetch sched]
    one_symbol_accepted(4) [OF a1 a2 a3 a4, of sched]
  show "let U = toUpperCase js s; ip = getClientIP js req;
           flag = (toLowerCase js (String_opt (q_like req)) = ''true'') in
         stock_likes (snd (handler js B fetch sched req p)) =
           (stock_likes p)(U \<mapsto> liked p U ip flag) \<and>
         stock_likes (snd (handler2 js B sched req p)) =
           (stock_likes p)(U \<mapsto> liked p U ip flag) \<and>
         fst (handler js B fetch sched req p) =
           (case getStockPrice js fetch U of
              Inl e \<Rightarrow> ServerError
            | Inr q \<Rightarrow> StockData (fst q) (snd q)
                (likes_of (snd (handler js B fetch sched req p)) U)) \<and>
         fst (handler2 js B sched req p) =
           StockData (toUpperCase js U) 100 (likes_of (snd (handler2 js B sched req p)) U)"
    unfolding Let_def likeFlag_of_def by blast
next
  assume b: "two_symbols req xs \<and> quiet B \<and>
    text_ok (toUpperCase js (String_at xs 0)) \<and> text_ok (toUpperCase js (String_at xs 1)) \<and>
    toUpperCase js (String_at xs 0) \<noteq> toUpperCase js (String_at xs 1) \<and>
    (toLowerCase js (String_opt (q_like req)) = ''true'' \<longrightarrow>
       text_ok (getClientIP js req) \<and>
       (getClientIP js req \<in> set (ips_of p (toUpperCase js (String_at xs 0))) \<or>
        likes_of p (toUpperCase js (String_at xs 0)) < int4_max) \<and>
       (getClientIP js req \<in> set (ips_of p (toUpperCase js (String_at xs 1))) \<or>
        likes_of p (toUpperCase js (String_at xs 1)) < int4_max))"
  then have b1: "two_symbols req xs" and b2: "quiet B"
    and b3: "text_ok (toUpperCase js (String_at xs 0))"
    and b4: "text_ok (toUpperCase js (String_at xs 1))"
    and b5: "toUpperCase js (String_at xs 0) \<noteq> toUpperCase js (String_at xs 1)"
    and b6: "likeFlag_of js req \<longrightarrow> text_ok (getClientIP js req) \<and>
       (getClientIP js req \<in> set (ips_of p (toUpperCase js (String_at xs 0))) \<or>
        likes_of p (toUpperCase js (String_at xs 0)) < int4_max) \<and>
       (getClientIP js req \<in> set (ips_of p (toUpperCase js (String_at xs 1))) \<or>
        likes_of p (toUpperCase js (String_at xs 1)) < int4_max)"
    by (simp_all add: likeFlag_of_def)
  from two_symbols_distinct(1) [OF b1 b2 b3 b4 b5 b6, of fetch sched]
    two_symbols_distinct(2) [OF b1 b2 b3 b4 b5 b6, of sched]
  show "let A = toUpperCase js (String_at xs 0); C = toUpperCase js (String_at xs 1);
           ip = getClientIP js req;
           flag = (toLowerCase js (String_opt (q_like req)) = ''true'') in
         stock_likes (snd (handler js B fetch sched req p)) =
           (stock_likes p)(A \<mapsto> liked p A ip flag, C \<mapsto> liked p C ip flag) \<and>
         stock_likes (snd (handler2 js B sched req p)) =
           (stock_likes p)(A \<mapsto> liked p A ip flag, C \<mapsto> liked p C ip flag)"
    unfolding Let_def likeFlag_of_def by blast
next
  assume c: "two_symbols req xs \<and> toLowerCase js (String_opt (q_like req)) = ''true''"
  then have c1: "two_symbols req xs" and c2: "likeFlag_of js req"
    by (simp_all add: likeFlag_of_def)
  from two_symbols_listed(1) [OF c1 c2, of B fetch sched p]
    two_symbols_listed(2) [OF c1 c2, of B sched p]
  show "let A = toUpperCase js (String_at xs 0); C = toUpperCase js (String_at xs 1);
           ip = getClientIP js req in
         (fst (handler js B fetch sched req p) \<noteq> ServerError \<longrightarrow>
            ip \<in> set (ips_of (snd (handler js B fetch sched req p)) A) \<and>
            ip \<in> set (ips_of (snd (handler js B fetch sched req p)) C)) \<and>
         (fst (handler2 js B sched req p) \<noteq> ServerError \<longrightarrow>
            ip \<in> set (ips_of (snd (handler2 js B sched req p)) A) \<and>
            ip \<in> set (ips_of (snd (handler2 js B sched req p)) C))"
    unfolding Let_def by blast
next
  assume "no_symbol req"
  then show "snd (handler js B fetch sched req p) = p" and "snd (handler2 js B sched req p) = p"
    by (rule handler_none)+
qed

theorem like_applied_iff_true_witness:
  "toLowerCase ascii (String_opt (Some (QStr ''TRUE''))) = ''true'' \<and>
   toLowerCase ascii (String_opt (Some (QStr ''1''))) \<noteq> ''true'' \<and>
   toLowerCase ascii (String_opt None) \<noteq> ''true'' \<and>
   one_symbol \<lparr>q_stock = Some (QArr [QStr ''goog'']), q_like = Some (QStr ''TRUE''),
        x_forwarded_for = None, remoteAddress = Some ''1.2.3.4'', req_ip = None\<rparr> ''goog'' \<and>
   stock_likes (snd (handler2 ascii no_failures []
      \<lparr>q_stock = Some (QArr [QStr ''goog'']), q_like = Some (QStr ''TRUE''),
        x_forwarded_for = None, remoteAddress = Some ''1.2.3.4'', req_ip = None\<rparr>
      empty_pool)) ''GOOG'' = Some \<lparr>likes = 1, ips = [''1.2.3.4'']\<rparr> \<and>
   two_symbols \<lparr>q_stock = Some (QArr [QStr ''goog'', QStr ''msft'']), q_like = Some (QStr ''TRUE''),
        x_forwarded_for = None, remoteAddress = Some ''1.2.3.4'', req_ip = None\<rparr>
      [QStr ''goog'', QStr ''msft''] \<and>
   stock_likes (snd (handler2 ascii no_failures [0, 1, 0, 1, 0, 1]
      \<lparr>q_stock = Some (QArr [QStr ''goog'', QStr ''msft'']), q_like = Some (QStr ''TRUE''),
        x_forwarded_for = None, remoteAddress = Some ''1.2.3.4'', req_ip = None\<rparr>
      empty_pool)) =
     [''GOOG'' \<mapsto> \<lparr>likes = 1, ips = [''1.2.3.4'']\<rparr>,
      ''MSFT'' \<mapsto> \<lparr>likes = 1, ips = [''1.2.3.4'']\<rparr>] \<and>
   ips_of (snd (handler2 ascii no_failures []
      \<lparr>q_stock = Some (QArr [QStr ''goog'', QStr ''msft'']), q_like = Some (QStr ''1''),
        x_forwarded_for = None, remoteAddress = Some ''1.2.3.4'', req_ip = None\<rparr>
      empty_pool)) = ips_of empty_pool"
proof -
  define r1 where "r1 = \<lparr>q_stock = Some (QArr [QStr ''goog'']), q_like = Some (QStr ''TRUE''),
      x_forwarded_for = None, remoteAddress = Some ''1.2.3.4'', req_ip = None\<rparr>"
  define r2 where "r2 = \<lparr>q_stock = Some (QArr [QStr ''goog'', QStr ''msft'']),
      q_like = Some (QStr ''1''),
      x_forwarded_for = None, remoteAddress = Some ''1.2.3.4'', req_ip = None\<rparr>"
  define r3 where "r3 = \<lparr>q_stock = Some (QArr [QStr ''goog'', QStr ''msft'']),
      q_like = Some (QStr ''TRUE''),
      x_forwarded_for = None, remoteAddress = Some ''1.2.3.4'', req_ip = None\<rparr>"
  have f1: "toLowerCase ascii (String_opt (Some (QStr ''TRUE''))) = ''true''"
    and f2: "toLowerCase ascii (String_opt (Some (QStr ''1''))) \<noteq> ''true''"
    and f3: "toLowerCase ascii (String_opt None) \<noteq> ''true''"
    by (simp_all add: String_opt_def ascii_def lower_char_def)
  have u: "toUpperCase ascii ''goog'' = ''GOOG''"
    and ua: "toUpperCase ascii (String_at [QStr ''goog'', QStr ''msft''] 0) = ''GOOG''"
    and ub: "toUpperCase ascii (String_at [QStr ''goog'', QStr ''msft''] 1) = ''MSFT''"
    by (simp_all add: ascii_def upper_char_def String_at_def String_opt_def)
  have ip: "getClientIP ascii r1 = ''1.2.3.4''" "getClientIP ascii r3 = ''1.2.3.4''"
    by (simp_all add: r1_def r3_def getClientIP_def or_else_def)
  have l: "q_like r1 = Some (QStr ''TRUE'')" "q_like r2 = Some (QStr ''1'')"
    "q_like r3 = Some (QStr ''TRUE'')"
    by (simp_all add: r1_def r2_def r3_def)
  have s1: "one_symbol r1 ''goog''"
    and s3: "two_symbols r3 [QStr ''goog'', QStr ''msft'']"
    by (simp_all add: r1_def r3_def one_symbol_def two_symbols_def)
  have t: "text_ok ''GOOG''" "text_ok ''MSFT''" "text_ok ''1.2.3.4''" "''GOOG'' \<noteq> ''MSFT''"
    by (simp_all add: text_ok_def)
  have e: "likes_of empty_pool ''GOOG'' < int4_max" "likes_of empty_pool ''MSFT'' < int4_max"
    by (simp_all add: likes_of_def empty_pool_def int4_max_def)
  have lk: "liked empty_pool ''GOOG'' ''1.2.3.4'' True = \<lparr>likes = 1, ips = [''1.2.3.4'']\<rparr>"
    "liked empty_pool ''MSFT'' ''1.2.3.4'' True = \<lparr>likes = 1, ips = [''1.2.3.4'']\<rparr>"
    by (simp_all add: liked_def likes_of_def ips_of_def empty_pool_def)
  have a: "stock_likes (snd (handler2 ascii no_failures [] r1 empty_pool)) =
      (stock_likes empty_pool)(''GOOG'' \<mapsto> \<lparr>likes = 1, ips = [''1.2.3.4'']\<rparr>)"
    using like_applied_iff_true [of ascii r1 no_failures "\<lambda>s. None :: nat quote option" "[]"
        empty_pool "''goog''" "[]", THEN conjunct2, THEN conjunct1]
      s1 f1 t e quiet_no_failures
    unfolding Let_def l u ip by (simp add: lk)
  have b: "ips_of (snd (handler2 ascii no_failures [] r2 empty_pool)) = ips_of empty_pool"
    using like_applied_iff_true [of ascii r2 no_failures "\<lambda>s. None :: nat quote option" "[]"
        empty_pool "[]" "[]", THEN conjunct1] f2
    unfolding l by blast
  have c: "stock_likes (snd (handler2 ascii no_failures [0, 1, 0, 1, 0, 1] r3 empty_pool)) =
      (stock_likes empty_pool)(''GOOG'' \<mapsto> \<lparr>likes = 1, ips = [''1.2.3.4'']\<rparr>,
        ''MSFT'' \<mapsto> \<lparr>likes = 1, ips = [''1.2.3.4'']\<rparr>)"
    using like_applied_iff_true [of ascii r3 no_failures "\<lambda>s. None :: nat quote option"
        "[0, 1, 0, 1, 0, 1]" empty_pool "[]" "[QStr ''goog'', QStr ''msft'']",
        THEN conjunct2, THEN conjunct2, THEN conjunct1]
      s3 f1 t e quiet_no_failures
    unfolding Let_def l ua ub ip by (simp add: lk)
  from a b c f1 f2 f3 s1 s3 show ?thesis
    unfolding r1_def r2_def r3_def by (simp add: empty_pool_def)
qed

section \<open>The race of two likes from one IP\<close>

text \<open>
  A call that runs alone, from its first statement to its last, is the
  function \<open>likeStockIfNeeded\<close>: the machine adds nothing but the interleaving.
\<close>

lemma call_alone:
  "snd (promise_all B [] [start s ip f] p) = snd (likeStockIfNeeded B s ip f p) \<and>
   c_pc (hd (fst (promise_all B [] [start s ip f] p))) =
     (case fst (likeStockIfNeeded B s ip f p) of Inl e \<Rightarrow> Rejected e | Inr u \<Rightarrow> Resolved)"
  by (auto simp add: promise_all_def step_def start_def likeStockIfNeeded_def
      select_likes_ips_def insert_row_def update_like_def Let_def split: option.splits)

text \<open>
  C1. Two concurrent calls of \<open>likeStockIfNeeded("GOOG", "1.2.3.4", true)\<close> on the
  empty table, no statement being refused, with the statements reaching the
  database in the order INSERT, INSERT, SELECT, SELECT, UPDATE, UPDATE: both
  calls read the row before either has written it, both resolve, and the row
  ends with 2 likes and the IP twice, which breaks the invariant of a row. The
  request \<open>?stock=GOOG&stock=goog&like=true\<close> starts exactly these two calls
  under \<open>Promise.all\<close>, with the same outcome.
\<close>

theorem concurrent_same_ip_counted_twice:
  "promise_all no_failures [0, 1, 0, 1, 0, 1]
     [start ''GOOG'' ''1.2.3.4'' True, start ''GOOG'' ''1.2.3.4'' True] empty_pool =
   ([resolve (start ''GOOG'' ''1.2.3.4'' True), resolve (start ''GOOG'' ''1.2.3.4'' True)],
    \<lparr>stock_likes = [''GOOG'' \<mapsto> \<lparr>likes = 2, ips = [''1.2.3.4'', ''1.2.3.4'']\<rparr>], queries = 6\<rparr>) \<and>
   \<not> row_ok \<lparr>likes = 2, ips = [''1.2.3.4'', ''1.2.3.4'']\<rparr> \<and>
   handler2 ascii no_failures [0, 1, 0, 1, 0, 1]
     \<lparr>q_stock = Some (QArr [QStr ''GOOG'', QStr ''goog'']), q_like = Some (QStr ''true''),
      x_forwarded_for = None, remoteAddress = Some ''1.2.3.4'', req_ip = None\<rparr> empty_pool =
   (StockPair (''GOOG'', 100, 0) (''GOOG'', 100, 0),
    \<lparr>stock_likes = [''GOOG'' \<mapsto> \<lparr>likes = 2, ips = [''1.2.3.4'', ''1.2.3.4'']\<rparr>], queries = 10\<rparr>)"
  by (simp add: handler_eval_defs eval_defs resolve_def row_ok_def)

text \<open>
  C2. The invariant does not hold after every sequence of operations: the
  empty table has it, and after the one request
  \<open>?stock=GOOG&stock=goog&like=true\<close>, whose two likes overlap under
  \<open>Promise.all\<close>, the row of GOOG in either file has 2 likes for 1 distinct IP,
  listed twice. (Operations awaited one after the other do keep the invariant:
  \<open>likes_inv_run_ops\<close>.)
\<close>

theorem overlapping_likes_break_invariant:
  "likes_of empty_pool = (\<lambda>s. 0) \<and> ips_of empty_pool = (\<lambda>s. []) \<and>
   stock_likes (snd (handler ascii no_failures (\<lambda>s. None :: unit quote option) [0, 1, 0, 1, 0, 1]
     \<lparr>q_stock = Some (QArr [QStr ''GOOG'', QStr ''goog'']), q_like = Some (QStr ''true''),
      x_forwarded_for = None, remoteAddress = Some ''1.2.3.4'', req_ip = None\<rparr> empty_pool))
     ''GOOG'' = Some \<lparr>likes = 2, ips = [''1.2.3.4'', ''1.2.3.4'']\<rparr> \<and>
   stock_likes (snd (handler2 ascii no_failures [0, 1, 0, 1, 0, 1]
     \<lparr>q_stock = Some (QArr [QStr ''GOOG'', QStr ''goog'']), q_like = Some (QStr ''true''),
      x_forwarded_for = None, remoteAddress = Some ''1.2.3.4'', req_ip = None\<rparr> empty_pool))
     ''GOOG'' = Some \<lparr>likes = 2, ips = [''1.2.3.4'', ''1.2.3.4'']\<rparr> \<and>
   likes \<lparr>likes = 2, ips = [''1.2.3.4'', ''1.2.3.4'']\<rparr> \<noteq>
     int (card (set (ips \<lparr>likes = 2, ips = [''1.2.3.4'', ''1.2.3.4'']\<rparr>))) \<and>
   \<not> distinct (ips \<lparr>likes = 2, ips = [''1.2.3.4'', ''1.2.3.4'']\<rparr>)"
  by (simp add: handler_eval_defs eval_defs fun_eq_iff)

end
